theory Spec2Isabelle
  imports Complex_Main "HOL-Library.Word" "HOL-Library.Log_Nat"
begin

section \<open>Data model\<close>

text \<open>
  The component \<open>InteractiveWater\<close> keeps two \<open>Int16Array\<close> buffers (\<open>buffer1Ref\<close>,
  \<open>buffer2Ref\<close>), both allocated with \<open>w * h\<close> elements by \<open>handleResize\<close>, and an
  \<open>ImageData\<close> output buffer (a \<open>Uint8ClampedArray\<close> of \<open>4 * w * h\<close> bytes).
  An \<open>Int16Array\<close> cell is a 16-bit word read as two's complement; a store converts the
  number modulo \<open>2 ^ 16\<close>. An assignment to an index outside a typed array is ignored, which
  is what \<open>list_update\<close> does as well.

  JavaScript numbers are IEEE doubles. The integer arithmetic of the pixel loop (sums,
  differences and shifts of 16-bit amplitudes, pixel coordinates, indices) stays far below
  \<open>2 ^ 53\<close> and is exact, so it is modelled on \<open>int\<close> and \<open>nat\<close>. Every operation with a
  non-integer operand (the products with \<open>damping\<close>, \<open>0.05\<close> and \<open>shimmer\<close>, the pointer
  coordinates, the colour blends) is modelled as the exact operation on rationals followed
  by \<open>fl\<close>, the rounding to the nearest double with ties to even, defined below.

  The two buffers are distinct arrays at all times (two allocations in \<open>handleResize\<close>,
  exchanged by the swap), so the loop's reads of \<open>buffer1\<close> never see its writes to
  \<open>buffer2\<close> and the state can hold the arrays by value.
\<close>

type_synonym grid = "16 word list"
type_synonym pixels = "8 word list"

datatype backgroundType = solid | gradient

record RippleConfig =
  damping :: rat
  shimmer :: rat
  baseColor :: string
  highlightColor :: string
  background :: backgroundType
  label :: string

record InteractionPoint =
  pt_x :: rat
  pt_y :: rat
  active :: bool

record rgb =
  r :: nat
  g :: nat
  b :: nat

text \<open>Reading a cell gives its signed value; storing a number wraps it into 16 bits.\<close>

definition rd :: "grid \<Rightarrow> nat \<Rightarrow> int" where
  "rd buf i = sint (buf ! i)"

definition store16 :: "grid \<Rightarrow> nat \<Rightarrow> int \<Rightarrow> grid" where
  "store16 buf i v = buf[i := word_of_int v]"

text \<open>The conversion of a number to a 16-bit signed integer, written out on \<open>int\<close>.\<close>

definition to_int16 :: "int \<Rightarrow> int" where
  "to_int16 v = (v + 32768) mod 65536 - 32768"

section \<open>Doubles\<close>

text \<open>
  A finite double is a rational \<open>n * 2 ^ e\<close> with \<open>\<bar>n\<bar> < 2 ^ 53\<close> and \<open>e \<ge> -1074\<close>. The result
  of an arithmetic operation is the exact result rounded to the nearest such number, ties
  going to the even significand: \<open>round_even\<close> rounds to an integer in this way, \<open>ilog2\<close>
  is the binary exponent \<open>\<lfloor>log\<^sub>2 q\<rfloor>\<close> of a positive rational, and \<open>fl\<close> rounds at the last
  of 53 significant bits (at \<open>2 ^ -1074\<close> for subnormal results). A number written in a
  theme or pointer record is read as the double nearest to it, \<open>fl\<close> of the number; a double
  is its own nearest double.

  Results beyond the largest double become infinite in JavaScript and stay finite here.
  The pixel loop only floors such a value and then either stores it in a 16-bit cell, which
  gives 0 for an infinite value and for every double from \<open>2 ^ 69\<close> on alike, or clamps it
  to a pixel coordinate or to 1, which does not tell them apart either. Operands that are
  not numbers or are infinite are outside the model.
\<close>

definition round_even :: "rat \<Rightarrow> int" where
  "round_even q =
     (let f = \<lfloor>q\<rfloor>
      in if q < of_int f + 1 / 2 then f
         else if of_int f + 1 / 2 < q then f + 1
         else if even f then f else f + 1)"

definition ilog2 :: "rat \<Rightarrow> int" where
  "ilog2 q =
     (case quotient_of q of
        (a, c) \<Rightarrow> (let e = bitlen a - bitlen c in if power_int 2 e \<le> q then e else e - 1))"

definition fl :: "rat \<Rightarrow> rat" where
  "fl q =
     (if q = 0 then 0
      else (let e = max (ilog2 \<bar>q\<bar>) (- 1022) - 52
            in of_int (round_even (q / power_int 2 e)) * power_int 2 e))"

section \<open>Interaction: dropping a ripple\<close>

definition radius :: int where
  "radius = 4"

definition strength :: int where
  "strength = 600"

text \<open>The body of the two nested loops of the interaction effect.\<close>

definition drop_cell :: "nat \<Rightarrow> nat \<Rightarrow> int \<Rightarrow> int \<Rightarrow> int \<Rightarrow> int \<Rightarrow> grid \<Rightarrow> grid" where
  "drop_cell w h x y j i buf =
     (if 0 \<le> i \<and> i < int w \<and> 0 \<le> j \<and> j < int h then
        (if (i - x) * (i - x) + (j - y) * (j - y) < radius * radius
         then store16 buf (nat (j * int w + i)) strength
         else buf)
      else buf)"

definition inject :: "nat \<Rightarrow> nat \<Rightarrow> InteractionPoint \<Rightarrow> grid \<Rightarrow> grid" where
  "inject w h p buffer1 =
     (if active p \<and> 0 < w then
        (let x = \<lfloor>fl (fl (pt_x p) * of_nat w)\<rfloor>;
             y = \<lfloor>fl (fl (pt_y p) * of_nat h)\<rfloor>
         in fold (\<lambda>j. fold (\<lambda>i. drop_cell w h x y j i) [x - radius .. x + radius - 1])
              [y - radius .. y + radius - 1] buffer1)
      else buffer1)"

section \<open>Ripple physics\<close>

text \<open>
  The two physics assignments of the pixel loop at index \<open>i\<close>. \<open>>> 1\<close> on the sum of four
  16-bit values is the arithmetic shift of a 32-bit integer, that is \<open>div 2\<close> rounding
  towards minus infinity. The second assignment reads the cell back, multiplies it by
  \<open>damping\<close> as doubles and applies \<open>Math.floor\<close>.
\<close>

definition wave :: "nat \<Rightarrow> grid \<Rightarrow> nat \<Rightarrow> grid \<Rightarrow> grid" where
  "wave w buffer1 i buffer2 =
     store16 buffer2 i
       ((rd buffer1 (i - 1) + rd buffer1 (i + 1) + rd buffer1 (i - w) + rd buffer1 (i + w)) div 2
         - rd buffer2 i)"

definition damp :: "rat \<Rightarrow> nat \<Rightarrow> grid \<Rightarrow> grid" where
  "damp d i buffer2 = store16 buffer2 i \<lfloor>fl (of_int (rd buffer2 i) * fl d)\<rfloor>"

definition ripple :: "nat \<Rightarrow> rat \<Rightarrow> grid \<Rightarrow> nat \<Rightarrow> grid \<Rightarrow> grid" where
  "ripple w d buffer1 i buffer2 = damp d i (wave w buffer1 i buffer2)"

text \<open>The index range of the pixel loop: \<open>for (let i = w + 1; i < w * h - w - 1; i++)\<close>.\<close>

definition loop_range :: "nat \<Rightarrow> nat \<Rightarrow> nat list" where
  "loop_range w h = [w + 1 ..< w * h - w - 1]"

text \<open>The buffer \<open>buffer2\<close> after the loop has handled the indices below \<open>k\<close>, and after the whole loop.\<close>

definition propagate_upto :: "nat \<Rightarrow> rat \<Rightarrow> grid \<Rightarrow> grid \<Rightarrow> nat \<Rightarrow> grid" where
  "propagate_upto w d buffer1 buffer2 k = fold (ripple w d buffer1) [w + 1 ..< k] buffer2"

definition propagate :: "nat \<Rightarrow> nat \<Rightarrow> rat \<Rightarrow> grid \<Rightarrow> grid \<Rightarrow> grid" where
  "propagate w h d buffer1 buffer2 = fold (ripple w d buffer1) (loop_range w h) buffer2"

section \<open>Colour parsing\<close>

text \<open>
  \<open>hexToRgb\<close> runs the regular expression \<open>/^#?([a-f\d]{2})([a-f\d]{2})([a-f\d]{2})$/i\<close>
  and reads each of the three groups with \<open>parseInt(_, 16)\<close>; without a match the result is
  black. \<open>hexClass\<close> is the character class \<open>[a-f\d]\<close> under the flag \<open>i\<close>.
\<close>

definition hexClass :: "char \<Rightarrow> bool" where
  "hexClass c =
     (let n = (of_char c :: nat)
      in (48 \<le> n \<and> n \<le> 57) \<or> (97 \<le> n \<and> n \<le> 102) \<or> (65 \<le> n \<and> n \<le> 70))"

definition digitVal :: "char \<Rightarrow> nat" where
  "digitVal c =
     (let n = (of_char c :: nat)
      in if n \<le> 57 then n - 48 else if 97 \<le> n then n - 87 else n - 55)"

definition parseInt16 :: "string \<Rightarrow> nat" where
  "parseInt16 s = fold (\<lambda>c n. 16 * n + digitVal c) s 0"

text \<open>One group \<open>([a-f\d]{2})\<close> at the head of the input: the captured text and the rest.\<close>

fun group2 :: "string \<Rightarrow> (string \<times> string) option" where
  "group2 (c1 # c2 # rest) = (if hexClass c1 \<and> hexClass c2 then Some ([c1, c2], rest) else None)"
| "group2 _ = None"

text \<open>The three groups followed by the end of the input.\<close>

definition groups_end :: "string \<Rightarrow> (string \<times> string \<times> string) option" where
  "groups_end s =
     (case group2 s of
        None \<Rightarrow> None
      | Some (g1, s1) \<Rightarrow>
          (case group2 s1 of
             None \<Rightarrow> None
           | Some (g2, s2) \<Rightarrow>
               (case group2 s2 of
                  None \<Rightarrow> None
                | Some (g3, s3) \<Rightarrow> if s3 = [] then Some (g1, g2, g3) else None)))"

text \<open>The greedy \<open>#?\<close>: first with the \<open>#\<close> consumed, then, on failure, without it.\<close>

definition regex_exec :: "string \<Rightarrow> (string \<times> string \<times> string) option" where
  "regex_exec hex =
     (case hex of
        [] \<Rightarrow> groups_end hex
      | c # cs \<Rightarrow>
          (if c = CHR ''#'' then
             (case groups_end cs of Some m \<Rightarrow> Some m | None \<Rightarrow> groups_end hex)
           else groups_end hex))"

definition hexToRgb :: "string \<Rightarrow> rgb" where
  "hexToRgb hex =
     (case regex_exec hex of
        Some (g1, g2, g3) \<Rightarrow> \<lparr>r = parseInt16 g1, g = parseInt16 g2, b = parseInt16 g3\<rparr>
      | None \<Rightarrow> \<lparr>r = 0, g = 0, b = 0\<rparr>)"

section \<open>Refraction rendering\<close>

text \<open>A store into a \<open>Uint8ClampedArray\<close>: clamp to \<open>0..255\<close>, round to nearest, ties to even.\<close>

definition toUint8Clamp :: "rat \<Rightarrow> 8 word" where
  "toUint8Clamp q =
     (if q \<le> 0 then 0
      else if 255 \<le> q then 255
      else of_int (round_even q))"

definition chan :: "pixels \<Rightarrow> nat \<Rightarrow> rat" where
  "chan buf i = of_nat (unat (buf ! i))"

definition xOffset :: "grid \<Rightarrow> nat \<Rightarrow> int" where
  "xOffset buffer2 i = rd buffer2 (i - 1) - rd buffer2 (i + 1)"

definition yOffset :: "nat \<Rightarrow> grid \<Rightarrow> nat \<Rightarrow> int" where
  "yOffset w buffer2 i = rd buffer2 (i - w) - rd buffer2 (i + w)"

text \<open>\<open>Math.floor(offset * 0.05 * config.shimmer)\<close>, two double products from left to right.\<close>

definition distortion :: "rat \<Rightarrow> int \<Rightarrow> int" where
  "distortion shim off = \<lfloor>fl (fl (of_int off * fl (1 / 20)) * fl shim)\<rfloor>"

text \<open>\<open>if (v < 0) v = 0; if (v >= n) v = n - 1;\<close>\<close>

definition clampTo :: "nat \<Rightarrow> int \<Rightarrow> int" where
  "clampTo n v = (let v1 = (if v < 0 then 0 else v) in if int n \<le> v1 then int n - 1 else v1)"

definition sourceIdx :: "nat \<Rightarrow> nat \<Rightarrow> nat \<Rightarrow> int \<Rightarrow> int \<Rightarrow> nat" where
  "sourceIdx w h i dX dY =
     (let sourceX = clampTo w (int (i mod w) + dX);
          sourceY = clampTo h (int (i div w) + dY)
      in nat (sourceY * int w + sourceX) * 4)"

definition tintFactor :: "int \<Rightarrow> int \<Rightarrow> rat" where
  "tintFactor dX dY = min 1 (fl (fl (of_int \<bar>dX\<bar> + of_int \<bar>dY\<bar>) / 20))"

definition shading :: "nat \<Rightarrow> grid \<Rightarrow> nat \<Rightarrow> int" where
  "shading w buffer2 i = xOffset buffer2 i - yOffset w buffer2 i"

text \<open>The copy of the displaced texture pixel, alpha 255.\<close>

definition copy_px :: "pixels \<Rightarrow> nat \<Rightarrow> nat \<Rightarrow> pixels \<Rightarrow> pixels" where
  "copy_px texture src tgt output =
     output[tgt := texture ! src, tgt + 1 := texture ! (src + 1),
            tgt + 2 := texture ! (src + 2), tgt + 3 := 255]"

text \<open>
  The highlight adds \<open>intensity * (highlight.r / 255)\<close> to a channel, and the tint blends it
  with \<open>base.r\<close> by the weight \<open>tintFactor * 0.5\<close>; each division, product, difference and sum
  is a double operation, and the store rounds the result to a byte.
\<close>

definition lit :: "rat \<Rightarrow> nat \<Rightarrow> rat \<Rightarrow> rat" where
  "lit intensity c v = min 255 (fl (v + fl (intensity * fl (of_nat c / 255))))"

definition specular :: "rgb \<Rightarrow> int \<Rightarrow> nat \<Rightarrow> pixels \<Rightarrow> pixels" where
  "specular highlight sh tgt output =
     (if 10 < sh then
        (let intensity = of_int (min 255 (sh * 2)) :: rat;
             o1 = output[tgt := toUint8Clamp (lit intensity (r highlight) (chan output tgt))];
             o2 = o1[tgt + 1 := toUint8Clamp (lit intensity (g highlight) (chan o1 (tgt + 1)))]
         in o2[tgt + 2 := toUint8Clamp (lit intensity (b highlight) (chan o2 (tgt + 2)))])
      else output)"

definition blend :: "rat \<Rightarrow> nat \<Rightarrow> rat \<Rightarrow> rat" where
  "blend tf c v = fl (fl (v * fl (1 - fl (tf * (1 / 2)))) + fl (of_nat c * fl (tf * (1 / 2))))"

definition tint :: "rgb \<Rightarrow> rat \<Rightarrow> nat \<Rightarrow> pixels \<Rightarrow> pixels" where
  "tint base tf tgt output =
     (if fl (1 / 20) < tf then
        (let o1 = output[tgt := toUint8Clamp (blend tf (r base) (chan output tgt))];
             o2 = o1[tgt + 1 := toUint8Clamp (blend tf (g base) (chan o1 (tgt + 1)))]
         in o2[tgt + 2 := toUint8Clamp (blend tf (b base) (chan o2 (tgt + 2)))])
      else output)"

text \<open>The rendering part of the loop body at index \<open>i\<close>; it reads \<open>buffer2\<close> as it stands.\<close>

definition refract :: "RippleConfig \<Rightarrow> nat \<Rightarrow> nat \<Rightarrow> pixels \<Rightarrow> grid \<Rightarrow> nat \<Rightarrow> pixels \<Rightarrow> pixels" where
  "refract config w h texture buffer2 i output =
     (let distortionX = distortion (shimmer config) (xOffset buffer2 i);
          distortionY = distortion (shimmer config) (yOffset w buffer2 i);
          o1 = copy_px texture (sourceIdx w h i distortionX distortionY) (i * 4) output;
          o2 = specular (hexToRgb (highlightColor config)) (shading w buffer2 i) (i * 4) o1
      in tint (hexToRgb (baseColor config)) (tintFactor distortionX distortionY) (i * 4) o2)"

section \<open>The frame loop\<close>

text \<open>The loop body: the physics of cell \<open>i\<close>, then the rendering of pixel \<open>i\<close>.\<close>

definition pixel :: "RippleConfig \<Rightarrow> nat \<Rightarrow> nat \<Rightarrow> grid \<Rightarrow> pixels \<Rightarrow> nat \<Rightarrow> grid \<times> pixels \<Rightarrow> grid \<times> pixels" where
  "pixel config w h buffer1 texture i st =
     (let b = ripple w (damping config) buffer1 i (fst st)
      in (b, refract config w h texture b i (snd st)))"

definition pixel_loop :: "RippleConfig \<Rightarrow> nat \<Rightarrow> nat \<Rightarrow> grid \<Rightarrow> pixels \<Rightarrow> grid \<times> pixels \<Rightarrow> grid \<times> pixels" where
  "pixel_loop config w h buffer1 texture st = fold (pixel config w h buffer1 texture) (loop_range w h) st"

record ImageData =
  width :: nat
  height :: nat
  data :: pixels

record water =
  dim_w :: nat
  dim_h :: nat
  buffer1Ref :: grid
  buffer2Ref :: grid
  imageDataBufferRef :: "ImageData option"

definition createImageData :: "nat \<Rightarrow> nat \<Rightarrow> ImageData" where
  "createImageData w h = \<lparr>width = w, height = h, data = replicate (4 * w * h) 0\<rparr>"

definition handleResize :: "nat \<Rightarrow> nat \<Rightarrow> water \<Rightarrow> water" where
  "handleResize w h s =
     s\<lparr>dim_w := w, dim_h := h, buffer1Ref := replicate (w * h) 0, buffer2Ref := replicate (w * h) 0\<rparr>"

definition interaction :: "InteractionPoint \<Rightarrow> water \<Rightarrow> water" where
  "interaction p s = s\<lparr>buffer1Ref := inject (dim_w s) (dim_h s) p (buffer1Ref s)\<rparr>"

text \<open>
  One call of \<open>renderloop\<close> with the captured frame \<open>texture\<close>: nothing happens for empty
  dimensions; otherwise the output buffer is reused when its size fits, the pixel loop
  runs, and the two buffer references are swapped. The canvas, its drawing context, the
  video element and the scheduling of the next call belong to the browser: the frame read
  back from the canvas enters as the parameter \<open>texture\<close>, and a missing canvas or context,
  for which \<open>renderloop\<close> returns at once, is not an event of the model.
\<close>

definition renderloop :: "RippleConfig \<Rightarrow> pixels \<Rightarrow> water \<Rightarrow> water" where
  "renderloop config texture s =
     (let w = dim_w s; h = dim_h s
      in if w = 0 \<or> h = 0 then s
         else
           (let outputImage =
                  (case imageDataBufferRef s of
                     None \<Rightarrow> createImageData w h
                   | Some im \<Rightarrow> if width im \<noteq> w \<or> height im \<noteq> h then createImageData w h else im);
                st = pixel_loop config w h (buffer1Ref s) texture (buffer2Ref s, data outputImage)
            in s\<lparr>buffer1Ref := fst st, buffer2Ref := buffer1Ref s,
                 imageDataBufferRef := Some (outputImage\<lparr>data := snd st\<rparr>)\<rparr>))"

text \<open>What happens to the component between resizes: pointer updates and animation frames.\<close>

datatype event = Interaction InteractionPoint | Animate RippleConfig pixels

fun step :: "event \<Rightarrow> water \<Rightarrow> water" where
  "step (Interaction p) s = interaction p s"
| "step (Animate config texture) s = renderloop config texture s"

definition run :: "event list \<Rightarrow> water \<Rightarrow> water" where
  "run es s = fold step es s"

section \<open>Notions used to state the properties\<close>

text \<open>
  An interior index lies off the one-pixel border on every side; a border index lies on it.
  The indices that the pixel loop never reaches are those up to \<open>w\<close> and those from
  \<open>w * h - w - 1\<close> on.
\<close>

definition interior :: "nat \<Rightarrow> nat \<Rightarrow> nat \<Rightarrow> bool" where
  "interior w h i \<longleftrightarrow>
     i < w * h \<and> 1 \<le> i mod w \<and> i mod w + 1 < w \<and> 1 \<le> i div w \<and> i div w + 1 < h"

definition border :: "nat \<Rightarrow> nat \<Rightarrow> nat \<Rightarrow> bool" where
  "border w h i \<longleftrightarrow>
     i < w * h \<and> (i < w \<or> w * h - w \<le> i \<or> i mod w = 0 \<or> i mod w = w - 1)"

definition untouched :: "nat \<Rightarrow> nat \<Rightarrow> nat \<Rightarrow> bool" where
  "untouched w h i \<longleftrightarrow> i < w * h \<and> (i \<le> w \<or> w * h - w - 1 \<le> i)"

text \<open>
  The propagation formula read with a halving that truncates towards zero, and read
  without any 16-bit conversion; both are compared with \<open>propagate\<close> below.
\<close>

definition halve_towards_zero :: "int \<Rightarrow> int" where
  "halve_towards_zero a = (if 0 \<le> a then a div 2 else - ((- a) div 2))"

definition next_truncating :: "nat \<Rightarrow> rat \<Rightarrow> grid \<Rightarrow> grid \<Rightarrow> nat \<Rightarrow> int" where
  "next_truncating w d cur prev i =
     \<lfloor>fl (of_int (halve_towards_zero (rd cur (i - 1) + rd cur (i + 1) + rd cur (i - w) + rd cur (i + w))
                   - rd prev i) * fl d)\<rfloor>"

definition next_unbounded :: "nat \<Rightarrow> rat \<Rightarrow> grid \<Rightarrow> grid \<Rightarrow> nat \<Rightarrow> int" where
  "next_unbounded w d cur prev i =
     \<lfloor>fl (of_int ((rd cur (i - 1) + rd cur (i + 1) + rd cur (i - w) + rd cur (i + w)) div 2
                   - rd prev i) * fl d)\<rfloor>"

text \<open>
  A run in which animation frames only swap the two buffers and propagation writes
  nothing: every cell then holds what initialisation or the last injection put there.
\<close>

fun step_noprop :: "event \<Rightarrow> water \<Rightarrow> water" where
  "step_noprop (Interaction p) s = interaction p s"
| "step_noprop (Animate config texture) s =
     (if dim_w s = 0 \<or> dim_h s = 0 then s
      else s\<lparr>buffer1Ref := buffer2Ref s, buffer2Ref := buffer1Ref s\<rparr>)"

definition last_written :: "event list \<Rightarrow> water \<Rightarrow> water" where
  "last_written es s = fold step_noprop es s"

text \<open>A colour string of six hexadecimal digits, with or without a leading \<open>#\<close>.\<close>

definition hex_color :: "string \<Rightarrow> bool" where
  "hex_color s \<longleftrightarrow>
     (length s = 6 \<and> list_all hexClass s) \<or>
     (length s = 7 \<and> hd s = CHR ''#'' \<and> list_all hexClass (tl s))"

text \<open>The component before its first resize, and a theme with the default colours.\<close>

definition unmounted :: water where
  "unmounted = \<lparr>dim_w = 0, dim_h = 0, buffer1Ref = [], buffer2Ref = [], imageDataBufferRef = None\<rparr>"

definition theme :: "rat \<Rightarrow> RippleConfig" where
  "theme d = \<lparr>damping = d, shimmer = 5, baseColor = ''#000000'', highlightColor = ''#00d2ff'',
              background = solid, label = ''Deep Water''\<rparr>"

definition centre :: InteractionPoint where
  "centre = \<lparr>pt_x = 1 / 2, pt_y = 1 / 2, active = True\<rparr>"

text \<open>A grid with every amplitude zero.\<close>

definition flat :: "nat \<Rightarrow> nat \<Rightarrow> grid" where
  "flat w h = replicate (w * h) 0"

text \<open>
  The image that a call of \<open>renderloop\<close> hands to \<open>putImageData\<close>; there is none when the
  call returns before the pixel loop.
\<close>

definition presented :: "RippleConfig \<Rightarrow> pixels \<Rightarrow> water \<Rightarrow> ImageData option" where
  "presented config texture s =
     (if dim_w s = 0 \<or> dim_h s = 0 then None else imageDataBufferRef (renderloop config texture s))"

text \<open>
  An output buffer as the component can hold one: either none yet, or an image of the size
  it was created with whose bytes outside the pixels of the loop are still the zeros of
  \<open>createImageData\<close>.
\<close>

definition image_clean :: "water \<Rightarrow> bool" where
  "image_clean s =
     (case imageDataBufferRef s of
        None \<Rightarrow> True
      | Some im \<Rightarrow>
          length (data im) = 4 * width im * height im \<and>
          list_all (\<lambda>k. k div 4 \<in> set (loop_range (width im) (height im)) \<or> data im ! k = 0)
            [0 ..< length (data im)])"

section \<open>Auxiliary notions for the proofs\<close>

text \<open>The value that the two physics assignments leave in cell \<open>i\<close>, given its old content.\<close>

definition cell_next :: "nat \<Rightarrow> rat \<Rightarrow> grid \<Rightarrow> nat \<Rightarrow> 16 word \<Rightarrow> 16 word" where
  "cell_next w d buffer1 i old =
     word_of_int \<lfloor>fl (of_int (sint (word_of_int
        ((rd buffer1 (i - 1) + rd buffer1 (i + 1) + rd buffer1 (i - w) + rd buffer1 (i + w)) div 2
          - sint old) :: 16 word)) * fl d)\<rfloor>"

text \<open>The disc of cells that a drop at pixel \<open>(x, y)\<close> covers inside the grid.\<close>

definition in_drop :: "nat \<Rightarrow> nat \<Rightarrow> int \<Rightarrow> int \<Rightarrow> nat \<Rightarrow> bool" where
  "in_drop w h x y k =
     (k < w * h \<and>
      (int (k mod w) - x) * (int (k mod w) - x) + (int (k div w) - y) * (int (k div w) - y) < 16)"

text \<open>Two output buffers that hold the same four bytes for the pixel starting at \<open>tgt\<close>.\<close>

definition agree :: "nat \<Rightarrow> pixels \<Rightarrow> pixels \<Rightarrow> bool" where
  "agree tgt out out' \<longleftrightarrow>
     length out = length out' \<and> tgt + 3 < length out \<and>
     out ! tgt = out' ! tgt \<and> out ! (tgt + 1) = out' ! (tgt + 1) \<and>
     out ! (tgt + 2) = out' ! (tgt + 2) \<and> out ! (tgt + 3) = out' ! (tgt + 3)"

text \<open>
  The damping assignment and the loop for a damping \<open>m / 2 ^ k\<close>, computed on integers;
  the lemmas below show that they agree with \<open>damp\<close> and \<open>propagate\<close>, whose double
  products are exact for such a damping. \<open>frames_dyadic\<close> runs \<open>n\<close> frames on the pair of
  buffers.
\<close>

definition damp_dyadic :: "int \<Rightarrow> nat \<Rightarrow> nat \<Rightarrow> grid \<Rightarrow> grid" where
  "damp_dyadic m k i buffer2 = store16 buffer2 i (rd buffer2 i * m div 2 ^ k)"

definition ripple_dyadic :: "nat \<Rightarrow> int \<Rightarrow> nat \<Rightarrow> grid \<Rightarrow> nat \<Rightarrow> grid \<Rightarrow> grid" where
  "ripple_dyadic w m k buffer1 i buffer2 = damp_dyadic m k i (wave w buffer1 i buffer2)"

definition propagate_dyadic :: "nat \<Rightarrow> nat \<Rightarrow> int \<Rightarrow> nat \<Rightarrow> grid \<Rightarrow> grid \<Rightarrow> grid" where
  "propagate_dyadic w h m k buffer1 buffer2 =
     fold (ripple_dyadic w m k buffer1) (loop_range w h) buffer2"

primrec frames_dyadic :: "nat \<Rightarrow> nat \<Rightarrow> int \<Rightarrow> nat \<Rightarrow> nat \<Rightarrow> grid \<times> grid \<Rightarrow> grid \<times> grid" where
  "frames_dyadic w h m k 0 st = st"
| "frames_dyadic w h m k (Suc n) st =
     frames_dyadic w h m k n (propagate_dyadic w h m k (fst st) (snd st), fst st)"

definition grids :: "water \<Rightarrow> grid \<times> grid" where
  "grids s = (buffer1Ref s, buffer2Ref s)"

text \<open>Two states of equal dimensions and well-sized buffers that agree on cell \<open>i\<close> of both buffers.\<close>

definition same_at :: "nat \<Rightarrow> water \<Rightarrow> water \<Rightarrow> bool" where
  "same_at i s s' \<longleftrightarrow>
     dim_w s' = dim_w s \<and> dim_h s' = dim_h s \<and>
     length (buffer1Ref s) = dim_w s * dim_h s \<and> length (buffer2Ref s) = dim_w s * dim_h s \<and>
     length (buffer1Ref s') = dim_w s * dim_h s \<and> length (buffer2Ref s') = dim_w s * dim_h s \<and>
     buffer1Ref s ! i = buffer1Ref s' ! i \<and> buffer2Ref s ! i = buffer2Ref s' ! i"

section \<open>Lemmas: doubles\<close>

lemma round_even_of_int [simp]: "round_even (of_int n) = n"
  by (simp add: round_even_def)

lemma round_even_le: "q \<le> of_int m \<Longrightarrow> round_even q \<le> m"
proof -
  assume a: "q \<le> of_int m"
  then have f: "\<lfloor>q\<rfloor> \<le> m" by (simp add: floor_le_iff)
  show ?thesis
  proof (cases "q < of_int \<lfloor>q\<rfloor> + 1 / 2")
    case True
    with f show ?thesis by (simp add: round_even_def)
  next
    case False
    then have "of_int \<lfloor>q\<rfloor> < q" by linarith
    with a have "(of_int \<lfloor>q\<rfloor> :: rat) < of_int m" by linarith
    then have "\<lfloor>q\<rfloor> < m" by simp
    then show ?thesis by (simp add: round_even_def Let_def)
  qed
qed

lemma round_even_ge: "of_int m \<le> q \<Longrightarrow> m \<le> round_even q"
proof -
  assume "of_int m \<le> q"
  then have "m \<le> \<lfloor>q\<rfloor>" by (simp add: le_floor_iff)
  then show ?thesis by (simp add: round_even_def Let_def)
qed

lemma ilog2_bounds:
  assumes "0 < q"
  shows "power_int 2 (ilog2 q) \<le> q \<and> q < power_int 2 (ilog2 q + 1)"
proof -
  obtain a c where ac: "quotient_of q = (a, c)" by (cases "quotient_of q")
  then have c: "0 < c" by (rule quotient_of_denom_pos)
  have q: "q = of_int a / of_int c" using ac by (rule quotient_of_div)
  with assms c have a: "0 < a" by (simp add: zero_less_divide_iff)
  define e where "e = bitlen a - bitlen c"
  from bitlen_bounds[OF a] have a1: "2 ^ nat (bitlen a - 1) \<le> a" and a2: "a < 2 ^ nat (bitlen a)" by simp_all
  from bitlen_bounds[OF c] have c1: "2 ^ nat (bitlen c - 1) \<le> c" and c2: "c < 2 ^ nat (bitlen c)" by simp_all
  have ba: "1 \<le> bitlen a" using a by (simp add: bitlen_alt_def)
  have bc: "1 \<le> bitlen c" using c by (simp add: bitlen_alt_def)
  have ra1: "power_int 2 (bitlen a - 1) \<le> (of_int a :: rat)"
  proof -
    have "(of_int (2 ^ nat (bitlen a - 1)) :: rat) \<le> of_int a" using a1 by (simp only: of_int_le_iff)
    then show ?thesis using ba by (simp add: power_int_def)
  qed
  have ra2: "(of_int a :: rat) < power_int 2 (bitlen a)"
  proof -
    have "(of_int a :: rat) < of_int (2 ^ nat (bitlen a))" using a2 by (simp only: of_int_less_iff)
    then show ?thesis using ba by (simp add: power_int_def)
  qed
  have rc1: "power_int 2 (bitlen c - 1) \<le> (of_int c :: rat)"
  proof -
    have "(of_int (2 ^ nat (bitlen c - 1)) :: rat) \<le> of_int c" using c1 by (simp only: of_int_le_iff)
    then show ?thesis using bc by (simp add: power_int_def)
  qed
  have rc2: "(of_int c :: rat) < power_int 2 (bitlen c)"
  proof -
    have "(of_int c :: rat) < of_int (2 ^ nat (bitlen c))" using c2 by (simp only: of_int_less_iff)
    then show ?thesis using bc by (simp add: power_int_def)
  qed
  have cpos: "(0 :: rat) < of_int c" using c by simp
  have lo: "power_int 2 (e - 1) < q"
  proof -
    have "power_int 2 (e - 1) * of_int c < power_int (2::rat) (e - 1) * power_int 2 (bitlen c)"
      using rc2 by (intro mult_strict_left_mono) simp_all
    also have "\<dots> = power_int 2 (bitlen a - 1)"
      by (simp add: e_def flip: power_int_add)
    also have "\<dots> \<le> of_int a" by (rule ra1)
    finally show ?thesis using cpos by (simp add: q pos_less_divide_eq)
  qed
  have hi: "q < power_int 2 (e + 1)"
  proof -
    have "of_int a < power_int (2::rat) (bitlen a)" by (rule ra2)
    also have "\<dots> = power_int 2 (e + 1) * power_int 2 (bitlen c - 1)"
      by (simp add: e_def flip: power_int_add)
    also have "\<dots> \<le> power_int 2 (e + 1) * of_int c"
      using rc1 by (intro mult_left_mono) simp_all
    finally show ?thesis using cpos by (simp add: q pos_divide_less_eq)
  qed
  have il: "ilog2 q = (if power_int 2 e \<le> q then e else e - 1)"
    by (simp add: ilog2_def ac e_def Let_def)
  show ?thesis
  proof (cases "power_int 2 e \<le> q")
    case True
    with hi il show ?thesis by simp
  next
    case False
    with lo il show ?thesis by simp
  qed
qed

lemma ilog2_less:
  assumes "0 < q" "q < power_int 2 k"
  shows "ilog2 q < k"
proof (rule ccontr)
  assume "\<not> ilog2 q < k"
  then have "k \<le> ilog2 q" by simp
  then have "power_int (2::rat) k \<le> power_int 2 (ilog2 q)" by (intro power_int_increasing) simp_all
  also have "\<dots> \<le> q" using ilog2_bounds[OF assms(1)] by simp
  finally show False using assms(2) by simp
qed

lemma ilog2_ge:
  assumes "0 < q" "power_int 2 k \<le> q"
  shows "k \<le> ilog2 q"
proof (rule ccontr)
  assume "\<not> k \<le> ilog2 q"
  then have "ilog2 q + 1 \<le> k" by simp
  then have "power_int (2::rat) (ilog2 q + 1) \<le> power_int 2 k" by (intro power_int_increasing) simp_all
  with ilog2_bounds[OF assms(1)] assms(2) show False by simp
qed

lemma fl_zero [simp]: "fl 0 = 0"
  by (simp add: fl_def)

lemma fl_nonneg: "0 \<le> q \<Longrightarrow> 0 \<le> fl q"
proof -
  assume a: "0 \<le> q"
  have "0 \<le> round_even (q / power_int 2 e)" for e
    using a by (intro round_even_ge) simp
  then show ?thesis by (simp add: fl_def Let_def)
qed

lemma fl_nonpos: "q \<le> 0 \<Longrightarrow> fl q \<le> 0"
proof -
  assume a: "q \<le> 0"
  have "round_even (q / power_int 2 e) \<le> 0" for e
    using a by (intro round_even_le) (simp add: divide_nonpos_pos)
  then show ?thesis by (simp add: fl_def Let_def mult_nonpos_nonneg)
qed

lemma ulp_exponent:
  assumes "q \<noteq> 0" "\<bar>q\<bar> < power_int 2 (53 + k)" "- 1074 \<le> k"
  shows "max (ilog2 \<bar>q\<bar>) (- 1022) - 52 \<le> k"
proof -
  from assms(1) have "0 < \<bar>q\<bar>" by simp
  from ilog2_less[OF this assms(2)] assms(3) show ?thesis by simp
qed

lemma fl_dyadic:
  assumes "\<bar>n\<bar> < 2 ^ 53" "- 1074 \<le> k"
  shows "fl (of_int n * power_int 2 k) = of_int n * power_int 2 k"
proof (cases "n = 0")
  case True
  then show ?thesis by simp
next
  case False
  define q :: rat where "q = of_int n * power_int 2 k"
  define e where "e = max (ilog2 \<bar>q\<bar>) (- 1022) - 52"
  have q0: "q \<noteq> 0" using False by (simp add: q_def)
  have "\<bar>q\<bar> = of_int \<bar>n\<bar> * power_int 2 k" by (simp add: q_def abs_mult)
  also have "\<dots> < of_int (2 ^ 53) * power_int 2 k"
    using assms(1) by (intro mult_strict_right_mono) (simp_all only: of_int_less_iff zero_less_power_int zero_less_numeral)
  also have "\<dots> = power_int 2 (53 + k)" by (simp add: power_int_add)
  finally have "\<bar>q\<bar> < power_int 2 (53 + k)" .
  from ulp_exponent[OF q0 this assms(2)] have ek: "e \<le> k" by (simp add: e_def)
  have "q / power_int 2 e = of_int n * power_int 2 (k - e)"
    by (simp add: q_def power_int_diff)
  also have "\<dots> = of_int (n * 2 ^ nat (k - e))"
    using ek by (simp add: power_int_def)
  finally have "round_even (q / power_int 2 e) = n * 2 ^ nat (k - e)"
    by (simp only: round_even_of_int)
  then have "fl q = of_int (n * 2 ^ nat (k - e)) * power_int 2 e"
    using q0 by (simp add: fl_def Let_def e_def)
  also have "\<dots> = of_int n * (power_int 2 (k - e) * power_int 2 e)"
    using ek by (simp add: power_int_def)
  also have "power_int 2 (k - e) * power_int (2::rat) e = power_int 2 k"
    by (simp flip: power_int_add)
  finally show ?thesis by (simp add: q_def)
qed

lemma fl_of_int: "\<bar>n\<bar> < 2 ^ 53 \<Longrightarrow> fl (of_int n) = of_int n"
  using fl_dyadic[of n 0] by simp

lemma fl_le_int:
  assumes "\<bar>q\<bar> < 2 ^ 53" "q \<le> of_int m"
  shows "fl q \<le> of_int m"
proof (cases "q = 0")
  case True
  with assms show ?thesis by simp
next
  case False
  define e where "e = max (ilog2 \<bar>q\<bar>) (- 1022) - 52"
  have "\<bar>q\<bar> < power_int 2 (53 + 0)" using assms(1) by simp
  from ulp_exponent[OF False this] have e0: "e \<le> 0" by (simp add: e_def)
  have p: "(0::rat) < power_int 2 e" by simp
  have "of_int m / power_int (2::rat) e = of_int (m * 2 ^ nat (- e))"
    using e0 by (simp add: power_int_def field_simps)
  moreover have "q / power_int 2 e \<le> of_int m / power_int 2 e"
    using assms(2) p by (simp add: divide_right_mono)
  ultimately have "round_even (q / power_int 2 e) \<le> m * 2 ^ nat (- e)"
    by (intro round_even_le) simp
  then have "(of_int (round_even (q / power_int 2 e)) :: rat) \<le> of_int (m * 2 ^ nat (- e))"
    by (simp only: of_int_le_iff)
  then have "of_int (round_even (q / power_int 2 e)) * power_int 2 e \<le> of_int (m * 2 ^ nat (- e)) * power_int (2::rat) e"
    using p by (intro mult_right_mono) simp_all
  also have "\<dots> = of_int m"
    using e0 by (simp add: power_int_def field_simps)
  finally show ?thesis using False by (simp add: fl_def Let_def e_def)
qed

lemma fl_ge_int:
  assumes "\<bar>q\<bar> < 2 ^ 53" "of_int m \<le> q"
  shows "of_int m \<le> fl q"
proof (cases "q = 0")
  case True
  with assms show ?thesis by simp
next
  case False
  define e where "e = max (ilog2 \<bar>q\<bar>) (- 1022) - 52"
  have "\<bar>q\<bar> < power_int 2 (53 + 0)" using assms(1) by simp
  from ulp_exponent[OF False this] have e0: "e \<le> 0" by (simp add: e_def)
  have p: "(0::rat) < power_int 2 e" by simp
  have "of_int m / power_int (2::rat) e = of_int (m * 2 ^ nat (- e))"
    using e0 by (simp add: power_int_def field_simps)
  moreover have "of_int m / power_int 2 e \<le> q / power_int 2 e"
    using assms(2) p by (simp add: divide_right_mono)
  ultimately have "m * 2 ^ nat (- e) \<le> round_even (q / power_int 2 e)"
    by (intro round_even_ge) simp
  then have "(of_int (m * 2 ^ nat (- e)) :: rat) \<le> of_int (round_even (q / power_int 2 e))"
    by (simp only: of_int_le_iff)
  then have le: "of_int (m * 2 ^ nat (- e)) * power_int (2::rat) e \<le> of_int (round_even (q / power_int 2 e)) * power_int 2 e"
    using p by (intro mult_right_mono) simp_all
  have "of_int (m * 2 ^ nat (- e)) * power_int (2::rat) e = of_int m"
    using e0 by (simp add: power_int_def field_simps)
  then have "(of_int m :: rat) = of_int (m * 2 ^ nat (- e)) * power_int (2::rat) e" by (rule sym)
  also note le
  finally show ?thesis using False by (simp add: fl_def Let_def e_def)
qed

text \<open>
  The doubles nearest to 0.94 and 0.05, and the double product of 2150 and 0.94, which lies
  below 2021.
\<close>

lemma fl_examples:
  "fl (47 / 50) = 2116691824864133 / 2251799813685248"
  "fl (1 / 20) = 3602879701896397 / 72057594037927936"
  "fl (2150 * fl (47 / 50)) = 8888451998941183 / 4398046511104"
  "fl (3 / 4) = 3 / 4"
  by code_simp+

section \<open>Lemmas: ripple physics\<close>

lemma ripple_eq:
  "i < length b2 \<Longrightarrow> ripple w d b1 i b2 = b2[i := cell_next w d b1 i (b2 ! i)]"
  by (simp add: ripple_def wave_def damp_def store16_def rd_def cell_next_def)

lemma ripple_length [simp]: "length (ripple w d b1 i b2) = length b2"
  by (simp add: ripple_def wave_def damp_def store16_def)

lemma fold_ripple_length [simp]: "length (fold (ripple w d b1) js b2) = length b2"
  by (induction js arbitrary: b2) simp_all

lemma fold_ripple_nth:
  "distinct js \<Longrightarrow> \<forall>j\<in>set js. j < length b2 \<Longrightarrow> k < length b2 \<Longrightarrow>
   fold (ripple w d b1) js b2 ! k = (if k \<in> set js then cell_next w d b1 k (b2 ! k) else b2 ! k)"
proof (induction js arbitrary: b2)
  case Nil
  then show ?case by simp
next
  case (Cons j js)
  have len: "length (ripple w d b1 j b2) = length b2" by simp
  have "fold (ripple w d b1) (j # js) b2 ! k = fold (ripple w d b1) js (ripple w d b1 j b2) ! k"
    by simp
  also have "\<dots> = (if k \<in> set js then cell_next w d b1 k (ripple w d b1 j b2 ! k) else ripple w d b1 j b2 ! k)"
    using Cons.prems by (intro Cons.IH) (simp_all)
  also have "\<dots> = (if k \<in> set (j # js) then cell_next w d b1 k (b2 ! k) else b2 ! k)"
    using Cons.prems by (auto simp: ripple_eq nth_list_update)
  finally show ?case .
qed

lemma loop_range_bound: "j \<in> set (loop_range w h) \<Longrightarrow> w + 1 \<le> j \<and> j + w + 1 < w * h"
  by (auto simp: loop_range_def)

lemma propagate_length [simp]: "length (propagate w h d b1 b2) = length b2"
  by (simp add: propagate_def)

lemma propagate_upto_length [simp]: "length (propagate_upto w d b1 b2 k) = length b2"
  by (simp add: propagate_upto_def)

lemma propagate_nth:
  "length b2 = w * h \<Longrightarrow> k < w * h \<Longrightarrow>
   propagate w h d b1 b2 ! k = (if k \<in> set (loop_range w h) then cell_next w d b1 k (b2 ! k) else b2 ! k)"
  unfolding propagate_def
  by (rule fold_ripple_nth) (auto simp: loop_range_def)

lemma propagate_upto_Suc:
  "w + 1 \<le> i \<Longrightarrow> propagate_upto w d b1 b2 (Suc i) = ripple w d b1 i (propagate_upto w d b1 b2 i)"
  by (simp add: propagate_upto_def)

lemma sint_word_of_int16: "sint (word_of_int v :: 16 word) = to_int16 v"
  by (simp add: to_int16_def sint_sbintrunc' signed_take_bit_eq_take_bit_shift take_bit_eq_mod)

lemma to_int16_range: "- 32768 \<le> to_int16 v \<and> to_int16 v \<le> 32767"
  unfolding to_int16_def using pos_mod_bound[of 65536 "v + 32768"] pos_mod_sign[of 65536 "v + 32768"] by linarith

section \<open>Lemmas: interaction\<close>

lemma fold_cond_update_nth:
  "k < length buf \<Longrightarrow>
   fold (\<lambda>a buf. if P a then buf[f a := v] else buf) as buf ! k =
     (if \<exists>a\<in>set as. P a \<and> f a = k then v else buf ! k)"
proof (induction as arbitrary: buf)
  case Nil
  then show ?case by simp
next
  case (Cons a as)
  then show ?case by (auto simp: nth_list_update)
qed

lemma fold_cond_update_length:
  "length (fold (\<lambda>a buf. if P a then buf[f a := v] else buf) as buf) = length buf"
  by (induction as arbitrary: buf) simp_all

lemma fold_nested_product:
  "fold (\<lambda>j. fold (\<lambda>i. F j i) is) js buf = fold (\<lambda>(j, i). F j i) (List.product js is) buf"
proof (induction js arbitrary: buf)
  case Nil
  then show ?case by simp
next
  case (Cons j js)
  then show ?case by (simp add: fold_map comp_def)
qed

lemma square_sum_small:
  fixes a c :: int
  assumes "a * a + c * c < 16"
  shows "- 4 < a \<and> a < 4"
proof -
  have c: "0 \<le> c * c" by simp
  have "\<not> 4 \<le> a"
  proof
    assume "4 \<le> a"
    then have "4 * 4 \<le> a * a" by (intro mult_mono) auto
    with assms c show False by linarith
  qed
  moreover have "\<not> a \<le> - 4"
  proof
    assume "a \<le> - 4"
    then have "4 * 4 \<le> (- a) * (- a)" by (intro mult_mono) auto
    with assms c show False by simp
  qed
  ultimately show ?thesis by linarith
qed

lemma drop_cell_eq:
  "drop_cell w h x y j i buf =
     (if 0 \<le> i \<and> i < int w \<and> 0 \<le> j \<and> j < int h \<and> (i - x) * (i - x) + (j - y) * (j - y) < 16
      then buf[nat (j * int w + i) := 600] else buf)"
  by (simp add: drop_cell_def store16_def radius_def strength_def)

lemma cell_index:
  fixes i j :: int
  assumes "0 \<le> i" "i < int w" "0 \<le> j" "j < int h"
  shows "nat (j * int w + i) mod w = nat i" "nat (j * int w + i) div w = nat j" "nat (j * int w + i) < w * h"
proof -
  have eq: "nat (j * int w + i) = nat j * w + nat i"
    using assms by (simp add: nat_add_distrib nat_mult_distrib)
  have iw: "nat i < w" using assms by linarith
  show "nat (j * int w + i) mod w = nat i" using iw by (simp add: eq)
  show "nat (j * int w + i) div w = nat j" using iw by (simp add: eq)
  have "nat j + 1 \<le> h" using assms by linarith
  then have "(nat j + 1) * w \<le> h * w" by (rule mult_le_mono1)
  then show "nat (j * int w + i) < w * h" using iw by (simp add: eq mult.commute)
qed

lemma drop_hit_iff:
  assumes "0 < w"
  shows "(\<exists>a\<in>set (List.product [y - 4 .. y + 4 - 1] [x - 4 .. x + 4 - 1]).
            (0 \<le> snd a \<and> snd a < int w \<and> 0 \<le> fst a \<and> fst a < int h \<and>
             (snd a - x) * (snd a - x) + (fst a - y) * (fst a - y) < 16) \<and>
            nat (fst a * int w + snd a) = k)
         \<longleftrightarrow> in_drop w h x y k"
proof
  assume "\<exists>a\<in>set (List.product [y - 4 .. y + 4 - 1] [x - 4 .. x + 4 - 1]).
            (0 \<le> snd a \<and> snd a < int w \<and> 0 \<le> fst a \<and> fst a < int h \<and>
             (snd a - x) * (snd a - x) + (fst a - y) * (fst a - y) < 16) \<and>
            nat (fst a * int w + snd a) = k"
  then obtain j i where ji: "0 \<le> i" "i < int w" "0 \<le> j" "j < int h"
      "(i - x) * (i - x) + (j - y) * (j - y) < 16" "nat (j * int w + i) = k"
    by auto
  from cell_index[OF ji(1-4)] ji(6) have "k mod w = nat i" "k div w = nat j" "k < w * h"
    by auto
  with ji show "in_drop w h x y k" by (simp add: in_drop_def)
next
  assume hit: "in_drop w h x y k"
  define i where "i = int (k mod w)"
  define j where "j = int (k div w)"
  from hit have kwh: "k < w * h" and d: "(i - x) * (i - x) + (j - y) * (j - y) < 16"
    by (simp_all add: in_drop_def i_def j_def)
  have i: "0 \<le> i" "i < int w" using assms by (simp_all add: i_def)
  have "k div w < h" using kwh assms by (simp add: less_mult_imp_div_less mult.commute)
  then have j: "0 \<le> j" "j < int h" by (simp_all add: j_def)
  from square_sum_small[OF d] have ix: "x - 4 \<le> i" "i \<le> x + 4 - 1" by linarith+
  from d have "(j - y) * (j - y) + (i - x) * (i - x) < 16" by simp
  from square_sum_small[OF this] have jy: "y - 4 \<le> j" "j \<le> y + 4 - 1" by linarith+
  have "nat (j * int w + i) = k"
    unfolding i_def j_def by (metis div_mult_mod_eq nat_int of_nat_add of_nat_mult)
  with i j d ix jy show "\<exists>a\<in>set (List.product [y - 4 .. y + 4 - 1] [x - 4 .. x + 4 - 1]).
            (0 \<le> snd a \<and> snd a < int w \<and> 0 \<le> fst a \<and> fst a < int h \<and>
             (snd a - x) * (snd a - x) + (fst a - y) * (fst a - y) < 16) \<and>
            nat (fst a * int w + snd a) = k"
    by (intro bexI[of _ "(j, i)"]) auto
qed

lemma inject_loop:
  "fold (\<lambda>j. fold (\<lambda>i. drop_cell w h x y j i) [x - radius .. x + radius - 1])
        [y - radius .. y + radius - 1] buf =
   fold (\<lambda>a buf. if (0 \<le> snd a \<and> snd a < int w \<and> 0 \<le> fst a \<and> fst a < int h \<and>
                      (snd a - x) * (snd a - x) + (fst a - y) * (fst a - y) < 16)
                  then buf[nat (fst a * int w + snd a) := 600] else buf)
        (List.product [y - 4 .. y + 4 - 1] [x - 4 .. x + 4 - 1]) buf"
  (is "?lhs = fold ?G ?ps buf")
proof -
  have "(\<lambda>j i. drop_cell w h x y j i) = (\<lambda>j i. ?G (j, i))"
    by (intro ext) (simp add: drop_cell_eq)
  then have "?lhs = fold (\<lambda>j. fold (\<lambda>i. ?G (j, i)) [x - 4 .. x + 4 - 1]) [y - 4 .. y + 4 - 1] buf"
    unfolding radius_def by metis
  also have "\<dots> = fold (\<lambda>(j, i). ?G (j, i)) ?ps buf"
    by (rule fold_nested_product)
  also have "(\<lambda>(j, i). ?G (j, i)) = ?G"
    by (intro ext) (simp add: case_prod_beta)
  finally show ?thesis .
qed

lemma inject_length [simp]: "length (inject w h p buf) = length buf"
proof (cases "active p \<and> 0 < w")
  case False
  then show ?thesis by (auto simp: inject_def)
next
  case True
  then show ?thesis
    unfolding inject_def Let_def inject_loop
    by (simp only: if_True simp_thms fold_cond_update_length)
qed

lemma inject_nth:
  assumes "k < length buf"
  shows "inject w h p buf ! k =
     (if active p \<and> 0 < w \<and>
         in_drop w h \<lfloor>fl (fl (pt_x p) * of_nat w)\<rfloor> \<lfloor>fl (fl (pt_y p) * of_nat h)\<rfloor> k
      then 600 else buf ! k)"
proof (cases "active p \<and> 0 < w")
  case False
  then show ?thesis by (auto simp: inject_def)
next
  case True
  then have w: "0 < w" by simp
  have "inject w h p buf ! k =
     (if in_drop w h \<lfloor>fl (fl (pt_x p) * of_nat w)\<rfloor> \<lfloor>fl (fl (pt_y p) * of_nat h)\<rfloor> k
      then 600 else buf ! k)"
    using True unfolding inject_def Let_def inject_loop
    by (simp only: if_True simp_thms fold_cond_update_nth[OF assms] drop_hit_iff[OF w])
  with True show ?thesis by simp
qed


section \<open>Lemmas: rendering and the pixel loop\<close>

lemma copy_px_length [simp]: "length (copy_px texture src tgt out) = length out"
  by (simp add: copy_px_def)

lemma specular_length [simp]: "length (specular hl sh tgt out) = length out"
  by (simp add: specular_def Let_def)

lemma tint_length [simp]: "length (tint base tf tgt out) = length out"
  by (simp add: tint_def Let_def)

lemma refract_length [simp]: "length (refract config w h texture buf i out) = length out"
  by (simp add: refract_def Let_def)

lemma copy_px_other: "k < tgt \<or> tgt + 3 < k \<Longrightarrow> copy_px texture src tgt out ! k = out ! k"
  by (auto simp: copy_px_def)

lemma specular_other: "k < tgt \<or> tgt + 3 \<le> k \<Longrightarrow> specular hl sh tgt out ! k = out ! k"
  by (auto simp: specular_def Let_def)

lemma tint_other: "k < tgt \<or> tgt + 3 \<le> k \<Longrightarrow> tint base tf tgt out ! k = out ! k"
  by (auto simp: tint_def Let_def)

lemma refract_other: "k < i * 4 \<or> i * 4 + 3 < k \<Longrightarrow> refract config w h texture buf i out ! k = out ! k"
  by (auto simp: refract_def Let_def copy_px_other specular_other tint_other)

lemma copy_px_agree:
  "length out = length out' \<Longrightarrow> tgt + 3 < length out \<Longrightarrow>
   agree tgt (copy_px texture src tgt out) (copy_px texture src tgt out')"
  by (simp add: agree_def copy_px_def)

lemma specular_agree:
  "agree tgt out out' \<Longrightarrow> agree tgt (specular hl sh tgt out) (specular hl sh tgt out')"
  by (simp add: agree_def specular_def Let_def chan_def)

lemma tint_agree:
  "agree tgt out out' \<Longrightarrow> agree tgt (tint base tf tgt out) (tint base tf tgt out')"
  by (simp add: agree_def tint_def Let_def chan_def)

lemma refract_agree:
  "length out = length out' \<Longrightarrow> i * 4 + 3 < length out \<Longrightarrow>
   agree (i * 4) (refract config w h texture buf i out) (refract config w h texture buf i out')"
  unfolding refract_def Let_def
  by (intro tint_agree specular_agree copy_px_agree)

lemma agree_nth: "agree tgt out out' \<Longrightarrow> tgt \<le> k \<Longrightarrow> k \<le> tgt + 3 \<Longrightarrow> out ! k = out' ! k"
proof -
  assume a: "agree tgt out out'" and "tgt \<le> k" "k \<le> tgt + 3"
  then have "k = tgt \<or> k = tgt + 1 \<or> k = tgt + 2 \<or> k = tgt + 3" by linarith
  with a show ?thesis by (auto simp: agree_def)
qed

lemma pixel_fst: "fst (pixel config w h b1 texture i st) = ripple w (damping config) b1 i (fst st)"
  by (simp add: pixel_def Let_def)

lemma pixel_snd:
  "snd (pixel config w h b1 texture i st) =
     refract config w h texture (ripple w (damping config) b1 i (fst st)) i (snd st)"
  by (simp add: pixel_def Let_def)

lemma fold_pixel_fst:
  "fst (fold (pixel config w h b1 texture) js st) = fold (ripple w (damping config) b1) js (fst st)"
  by (induction js arbitrary: st) (simp_all add: pixel_fst)

lemma fold_pixel_snd_length [simp]:
  "length (snd (fold (pixel config w h b1 texture) js st)) = length (snd st)"
  by (induction js arbitrary: st) (simp_all add: pixel_snd)

lemma fold_pixel_snd_other:
  "\<forall>j\<in>set js. k < j * 4 \<or> j * 4 + 3 < k \<Longrightarrow>
   snd (fold (pixel config w h b1 texture) js st) ! k = snd st ! k"
  by (induction js arbitrary: st) (simp_all add: pixel_snd refract_other)

lemma pixel_loop_fst:
  "fst (pixel_loop config w h b1 texture st) = propagate w h (damping config) b1 (fst st)"
  by (simp add: pixel_loop_def propagate_def fold_pixel_fst)

lemma loop_range_split:
  assumes "i \<in> set (loop_range w h)"
  shows "loop_range w h = [w + 1 ..< i] @ i # [Suc i ..< w * h - w - 1]"
proof -
  from assms have "w + 1 \<le> i" "i < w * h - w - 1" by (auto simp: loop_range_def)
  then have "[w + 1 ..< w * h - w - 1] = [w + 1 ..< i] @ [i ..< w * h - w - 1]"
    by (metis le_add_diff_inverse less_imp_le_nat upt_add_eq_append)
  also have "[i ..< w * h - w - 1] = i # [Suc i ..< w * h - w - 1]"
    using \<open>i < w * h - w - 1\<close> by (rule upt_conv_Cons)
  finally show ?thesis by (simp add: loop_range_def)
qed

lemma pixel_loop_px:
  assumes i: "i \<in> set (loop_range w h)"
    and k: "i * 4 \<le> k" "k \<le> i * 4 + 3"
    and len: "length out = 4 * w * h" "length out' = 4 * w * h"
  shows "snd (pixel_loop config w h b1 texture (b2, out)) ! k =
         refract config w h texture (propagate_upto w (damping config) b1 b2 (Suc i)) i out' ! k"
proof -
  let ?P = "pixel config w h b1 texture"
  define st where "st = fold ?P [w + 1 ..< i] (b2, out)"
  from i have bounds: "w + 1 \<le> i" "i + w + 1 < w * h" by (auto simp: loop_range_def)
  have fst_st: "fst st = propagate_upto w (damping config) b1 b2 i"
    by (simp add: st_def fold_pixel_fst propagate_upto_def)
  have len_st: "length (snd st) = 4 * w * h"
    by (simp add: st_def len)
  have "pixel_loop config w h b1 texture (b2, out) = fold ?P [Suc i ..< w * h - w - 1] (?P i st)"
    by (simp add: pixel_loop_def loop_range_split[OF i] st_def)
  then have "snd (pixel_loop config w h b1 texture (b2, out)) ! k = snd (?P i st) ! k"
    using k by (simp add: fold_pixel_snd_other)
  also have "snd (?P i st) = refract config w h texture (propagate_upto w (damping config) b1 b2 (Suc i)) i (snd st)"
    using bounds by (simp add: pixel_snd fst_st propagate_upto_Suc)
  also have "\<dots> ! k = refract config w h texture (propagate_upto w (damping config) b1 b2 (Suc i)) i out' ! k"
  proof (rule agree_nth[OF refract_agree])
    show "length (snd st) = length out'" by (simp add: len_st len)
    show "i * 4 + 3 < length (snd st)" using bounds by (simp add: len_st)
  qed (use k in auto)
  finally show ?thesis .
qed

lemma pixel_loop_snd_other:
  assumes "k div 4 \<notin> set (loop_range w h)"
  shows "snd (pixel_loop config w h b1 texture (b2, out)) ! k = out ! k"
proof -
  have "\<forall>j\<in>set (loop_range w h). k < j * 4 \<or> j * 4 + 3 < k"
  proof
    fix j assume j: "j \<in> set (loop_range w h)"
    with assms have "k div 4 \<noteq> j" by auto
    then show "k < j * 4 \<or> j * 4 + 3 < k" by linarith
  qed
  then show ?thesis by (simp add: pixel_loop_def fold_pixel_snd_other)
qed

section \<open>Lemmas: frames, flat grids, colours\<close>

lemma interior_loop_range: "interior w h i \<Longrightarrow> i \<in> set (loop_range w h)"
proof -
  assume a: "interior w h i"
  define x where "x = i mod w"
  define y where "y = i div w"
  have i: "i = y * w + x" by (simp add: x_def y_def)
  from a have x: "1 \<le> x" "x + 1 < w" and y: "1 \<le> y" "y + 2 \<le> h"
    by (simp_all add: interior_def x_def y_def)
  have "1 * w \<le> y * w" using y(1) by (intro mult_le_mono1)
  then have "w \<le> y * w" by (simp only: mult_1)
  then have lo: "w + 1 \<le> i" using x unfolding i by linarith
  have "(y + 2) * w \<le> h * w" using y(2) by (intro mult_le_mono1)
  then have "y * w + 2 * w \<le> w * h" by (simp add: algebra_simps)
  then have hi: "i + w + 1 < w * h" using x unfolding i by linarith
  from lo hi show ?thesis by (auto simp: loop_range_def)
qed

lemma rd_cell_next:
  "sint (cell_next w d b1 i old) =
     to_int16 \<lfloor>fl (of_int (to_int16 ((rd b1 (i - 1) + rd b1 (i + 1) + rd b1 (i - w) + rd b1 (i + w)) div 2
        - sint old)) * fl d)\<rfloor>"
  by (simp only: cell_next_def sint_word_of_int16)

lemma untouched_not_in_range: "untouched w h i \<Longrightarrow> i \<notin> set (loop_range w h)"
  by (auto simp: untouched_def loop_range_def)

lemma renderloop_dims [simp]:
  "dim_w (renderloop config texture s) = dim_w s" "dim_h (renderloop config texture s) = dim_h s"
  by (simp_all add: renderloop_def Let_def)

lemma renderloop_buffers:
  "dim_w s \<noteq> 0 \<Longrightarrow> dim_h s \<noteq> 0 \<Longrightarrow>
   buffer1Ref (renderloop config texture s) =
     propagate (dim_w s) (dim_h s) (damping config) (buffer1Ref s) (buffer2Ref s) \<and>
   buffer2Ref (renderloop config texture s) = buffer1Ref s"
  by (simp add: renderloop_def Let_def pixel_loop_fst)

lemma renderloop_empty: "dim_w s = 0 \<or> dim_h s = 0 \<Longrightarrow> renderloop config texture s = s"
  by (simp add: renderloop_def Let_def)

lemma step_same_at:
  assumes "same_at i s s'" "untouched (dim_w s) (dim_h s) i"
  shows "same_at i (step e s) (step_noprop e s') \<and> dim_w (step e s) = dim_w s \<and> dim_h (step e s) = dim_h s"
proof (cases e)
  case (Interaction p)
  from assms(2) have "i < dim_w s * dim_h s" by (simp add: untouched_def)
  with assms(1) show ?thesis
    by (simp add: Interaction same_at_def interaction_def inject_nth)
next
  case (Animate config texture)
  show ?thesis
  proof (cases "dim_w s = 0 \<or> dim_h s = 0")
    case True
    with assms(1) show ?thesis
      by (auto simp: Animate same_at_def renderloop_empty)
  next
    case False
    then have nz: "dim_w s \<noteq> 0" "dim_h s \<noteq> 0" by simp_all
    from assms(2) have i: "i < dim_w s * dim_h s" by (simp add: untouched_def)
    have "propagate (dim_w s) (dim_h s) (damping config) (buffer1Ref s) (buffer2Ref s) ! i = buffer2Ref s ! i"
      using assms i by (simp add: same_at_def propagate_nth untouched_not_in_range)
    with assms(1) nz show ?thesis
      by (simp add: Animate same_at_def renderloop_buffers)
  qed
qed

lemma run_same_at:
  "same_at i s s' \<Longrightarrow> untouched (dim_w s) (dim_h s) i \<Longrightarrow> same_at i (fold step es s) (fold step_noprop es s')"
proof (induction es arbitrary: s s')
  case Nil
  then show ?case by simp
next
  case (Cons e es)
  from step_same_at[OF Cons.prems, of e]
  have "same_at i (step e s) (step_noprop e s')" "untouched (dim_w (step e s)) (dim_h (step e s)) i"
    using Cons.prems(2) by simp_all
  then have "same_at i (fold step es (step e s)) (fold step_noprop es (step_noprop e s'))"
    by (rule Cons.IH)
  then show ?case by simp
qed

lemma propagate_upto_nth:
  "k < length b2 \<Longrightarrow> m \<le> length b2 \<Longrightarrow>
   propagate_upto w d b1 b2 m ! k = (if w + 1 \<le> k \<and> k < m then cell_next w d b1 k (b2 ! k) else b2 ! k)"
  unfolding propagate_upto_def
  by (subst fold_ripple_nth) auto

lemma cell_next_flat: "i + w < n \<Longrightarrow> i + 1 < n \<Longrightarrow> cell_next w d (replicate n 0) i 0 = 0"
  by (simp add: cell_next_def rd_def)

lemma propagate_upto_flat:
  assumes "m + w \<le> w * h" "0 < w"
  shows "propagate_upto w d (flat w h) (flat w h) m = flat w h"
proof (rule nth_equalityI)
  show "length (propagate_upto w d (flat w h) (flat w h) m) = length (flat w h)" by simp
next
  fix k assume "k < length (propagate_upto w d (flat w h) (flat w h) m)"
  then have k: "k < w * h" by (simp add: flat_def)
  have m: "m \<le> w * h" using assms by simp
  show "propagate_upto w d (flat w h) (flat w h) m ! k = flat w h ! k"
  proof (cases "w + 1 \<le> k \<and> k < m")
    case True
    then have "k + w < w * h" "k + 1 < w * h" using assms by simp_all
    then have "cell_next w d (flat w h) k 0 = 0" unfolding flat_def by (rule cell_next_flat)
    with True k m show ?thesis by (simp add: propagate_upto_nth flat_def)
  next
    case False
    have "propagate_upto w d (flat w h) (flat w h) m ! k =
            (if w + 1 \<le> k \<and> k < m then cell_next w d (flat w h) k (flat w h ! k) else flat w h ! k)"
      using k m by (intro propagate_upto_nth) (simp_all add: flat_def)
    with False show ?thesis by auto
  qed
qed

lemma propagate_flat: "propagate w h d (flat w h) (flat w h) = flat w h"
proof -
  have "propagate w h d (flat w h) (flat w h) = propagate_upto w d (flat w h) (flat w h) (w * h - w - 1)"
    by (simp add: propagate_def propagate_upto_def loop_range_def)
  also have "\<dots> = flat w h"
  proof (cases "0 < w \<and> w + 1 \<le> w * h")
    case True
    then show ?thesis by (intro propagate_upto_flat) simp_all
  next
    case False
    then have e: "[w + 1 ..< w * h - w - 1] = []" by auto
    show ?thesis unfolding propagate_upto_def e by simp
  qed
  finally show ?thesis .
qed

lemma clampTo_id: "0 \<le> v \<Longrightarrow> v < int n \<Longrightarrow> clampTo n v = v"
  by (simp add: clampTo_def)

lemma sourceIdx_still:
  assumes "0 < w" "i < w * h"
  shows "sourceIdx w h i 0 0 = i * 4"
proof -
  have x: "clampTo w (int (i mod w) + 0) = int (i mod w)"
    using assms(1) by (simp add: clampTo_def not_le)
  have "i div w < h" using assms by (simp add: less_mult_imp_div_less mult.commute)
  then have y: "clampTo h (int (i div w) + 0) = int (i div w)"
    by (simp add: clampTo_def)
  have "nat (int (i div w) * int w + int (i mod w)) = i"
    by (metis div_mult_mod_eq nat_int of_nat_add of_nat_mult)
  with x y show ?thesis by (simp add: sourceIdx_def Let_def)
qed

lemma flat_offsets:
  assumes "i + w < w * h" "0 < w"
  shows "xOffset (flat w h) i = 0" "yOffset w (flat w h) i = 0" "shading w (flat w h) i = 0"
  using assms by (simp_all add: xOffset_def yOffset_def shading_def rd_def flat_def)

lemma distortion_zero [simp]: "distortion shim 0 = 0"
  by (simp add: distortion_def)

lemma tintFactor_zero [simp]: "tintFactor 0 0 = 0"
  by (simp add: tintFactor_def)

lemma refract_flat:
  assumes "0 < w" "i + w < w * h"
  shows "refract config w h texture (flat w h) i out = copy_px texture (i * 4) (i * 4) out"
proof -
  from assms(2) have i: "i < w * h" by simp
  have "\<not> fl (1 / 20) < 0" using fl_nonneg[of "1 / 20"] by simp
  then show ?thesis
    by (simp add: refract_def Let_def flat_offsets[OF assms(2,1)] sourceIdx_still[OF assms(1) i]
          specular_def tint_def)
qed

lemma group2_Some:
  "group2 s = Some (grp, rest) \<Longrightarrow> \<exists>c1 c2. s = c1 # c2 # rest \<and> hexClass c1 \<and> hexClass c2"
  by (cases s rule: group2.cases) (auto split: if_splits)

lemma groups_end_Some:
  assumes "groups_end s = Some m"
  shows "length s = 6 \<and> list_all hexClass s"
proof -
  from assms obtain g1 s1 where 1: "group2 s = Some (g1, s1)"
    by (auto simp: groups_end_def split: option.splits)
  with assms obtain g2 s2 where 2: "group2 s1 = Some (g2, s2)"
    by (auto simp: groups_end_def split: option.splits)
  with assms 1 obtain g3 s3 where 3: "group2 s2 = Some (g3, s3)"
    by (auto simp: groups_end_def split: option.splits)
  with assms 1 2 have 4: "s3 = []"
    by (auto simp: groups_end_def split: option.splits if_splits)
  from group2_Some[OF 1] group2_Some[OF 2] group2_Some[OF 3] 4 show ?thesis by auto
qed

lemma regex_exec_Some:
  assumes "regex_exec s = Some m"
  shows "hex_color s"
proof (cases s)
  case Nil
  with assms have "groups_end s = Some m" by (simp add: regex_exec_def)
  from groups_end_Some[OF this] show ?thesis by (simp add: hex_color_def)
next
  case (Cons c cs)
  show ?thesis
  proof (cases "c = CHR ''#'' \<and> groups_end cs \<noteq> None")
    case True
    then obtain m' where "groups_end cs = Some m'" by auto
    from groups_end_Some[OF this] True Cons show ?thesis by (simp add: hex_color_def)
  next
    case False
    with assms Cons have "groups_end s = Some m"
      by (auto simp: regex_exec_def split: if_splits option.splits)
    from groups_end_Some[OF this] show ?thesis by (simp add: hex_color_def)
  qed
qed

lemma to_int16_id: "- 32768 \<le> v \<Longrightarrow> v \<le> 32767 \<Longrightarrow> to_int16 v = v"
  by (simp add: to_int16_def)

lemma to_int16_cong: "(to_int16 v - v) mod 65536 = 0"
proof -
  have "to_int16 v - v = (v + 32768) mod 65536 - (v + 32768)" by (simp add: to_int16_def)
  also have "\<dots> = - (65536 * ((v + 32768) div 65536))"
    by (simp add: minus_mult_div_eq_mod[symmetric])
  finally show ?thesis by simp
qed

lemma rd_ripple:
  "i < length b2 \<Longrightarrow>
   rd (ripple w d b1 i b2) i =
     to_int16 \<lfloor>fl (of_int (to_int16
       ((rd b1 (i - 1) + rd b1 (i + 1) + rd b1 (i - w) + rd b1 (i + w)) div 2 - rd b2 i)) * fl d)\<rfloor>"
  by (simp add: ripple_eq rd_def rd_cell_next)

lemma run_append: "run (es @ fs) s = run fs (run es s)"
  by (simp add: run_def)

lemma run_Cons: "run (e # es) s = run es (step e s)"
  by (simp add: run_def)

lemma damped_bounds:
  fixes v :: int and d :: rat
  assumes "0 < d" "d < 1" "- 32768 \<le> v" "v \<le> 32767"
  shows "(0 \<le> v \<longrightarrow> 0 \<le> \<lfloor>fl (of_int v * fl d)\<rfloor> \<and> \<lfloor>fl (of_int v * fl d)\<rfloor> \<le> v) \<and>
         (v < 0 \<longrightarrow> v \<le> \<lfloor>fl (of_int v * fl d)\<rfloor> \<and> \<lfloor>fl (of_int v * fl d)\<rfloor> \<le> 0)"
proof -
  have d0: "0 \<le> fl d" using assms(1) by (intro fl_nonneg) simp
  have "fl d \<le> of_int 1" using assms(1,2) by (intro fl_le_int) simp_all
  then have d1: "fl d \<le> 1" by simp
  have small: "\<bar>of_int v * fl d\<bar> < 2 ^ 53"
  proof -
    have "\<bar>of_int v * fl d\<bar> = \<bar>of_int v\<bar> * fl d" using d0 by (simp add: abs_mult)
    also have "\<dots> \<le> \<bar>of_int v\<bar> * 1" using d1 by (intro mult_left_mono) simp_all
    also have "\<dots> = of_int \<bar>v\<bar>" by simp
    also have "\<dots> \<le> of_int 32768"
    proof -
      have "\<bar>v\<bar> \<le> 32768" using assms(3,4) by linarith
      then show ?thesis by (simp only: of_int_le_iff)
    qed
    finally show ?thesis by simp
  qed
  show ?thesis
  proof (intro conjI impI)
    assume nonneg: "0 \<le> v"
    then have "0 \<le> of_int v * fl d" using d0 by simp
    then have "0 \<le> fl (of_int v * fl d)" by (rule fl_nonneg)
    then show "0 \<le> \<lfloor>fl (of_int v * fl d)\<rfloor>" by simp
    have "of_int v * fl d \<le> of_int v * 1"
      using nonneg d1 by (intro mult_left_mono) simp_all
    then have "of_int v * fl d \<le> of_int v" by simp
    with small have "fl (of_int v * fl d) \<le> of_int v" by (rule fl_le_int)
    then have "\<lfloor>fl (of_int v * fl d)\<rfloor> \<le> \<lfloor>of_int v :: rat\<rfloor>" by (rule floor_mono)
    then show "\<lfloor>fl (of_int v * fl d)\<rfloor> \<le> v" by simp
  next
    assume neg: "v < 0"
    then have "of_int v * fl d \<le> 0" using d0 by (simp add: mult_nonpos_nonneg)
    then have "fl (of_int v * fl d) \<le> 0" by (rule fl_nonpos)
    then have "\<lfloor>fl (of_int v * fl d)\<rfloor> \<le> \<lfloor>0 :: rat\<rfloor>" by (rule floor_mono)
    then show "\<lfloor>fl (of_int v * fl d)\<rfloor> \<le> 0" by simp
    have "of_int v * 1 \<le> of_int v * fl d"
      using neg d1 by (intro mult_left_mono_neg) simp_all
    then have "of_int v \<le> of_int v * fl d" by simp
    with small have "of_int v \<le> fl (of_int v * fl d)" by (rule fl_ge_int)
    then have "\<lfloor>of_int v :: rat\<rfloor> \<le> \<lfloor>fl (of_int v * fl d)\<rfloor>" by (rule floor_mono)
    then show "v \<le> \<lfloor>fl (of_int v * fl d)\<rfloor>" by simp
  qed
qed

lemma flat_frames:
  assumes "buffer1Ref s = flat (dim_w s) (dim_h s)" "buffer2Ref s = flat (dim_w s) (dim_h s)"
  shows "buffer1Ref (run (map (\<lambda>(config, texture). Animate config texture) fs) s) = flat (dim_w s) (dim_h s) \<and>
         buffer2Ref (run (map (\<lambda>(config, texture). Animate config texture) fs) s) = flat (dim_w s) (dim_h s)"
  using assms
proof (induction fs arbitrary: s)
  case Nil
  then show ?case by (simp add: run_def)
next
  case (Cons f fs)
  obtain config texture where f: "f = (config, texture)" by (cases f)
  let ?s = "renderloop config texture s"
  have d: "dim_w ?s = dim_w s" "dim_h ?s = dim_h s" by simp_all
  have "buffer1Ref ?s = flat (dim_w s) (dim_h s) \<and> buffer2Ref ?s = flat (dim_w s) (dim_h s)"
  proof (cases "dim_w s = 0 \<or> dim_h s = 0")
    case True
    with Cons.prems show ?thesis by (simp add: renderloop_empty)
  next
    case False
    with Cons.prems show ?thesis by (simp add: renderloop_buffers propagate_flat)
  qed
  then have "buffer1Ref ?s = flat (dim_w ?s) (dim_h ?s)" "buffer2Ref ?s = flat (dim_w ?s) (dim_h ?s)"
    by (simp_all add: d)
  from Cons.IH[OF this] show ?case by (simp add: f run_Cons d)
qed

section \<open>Lemmas: frames with a dyadic damping\<close>

lemma rd_bounds: "- 32768 \<le> rd buf i \<and> rd buf i \<le> 32767"
  using sint_ge[of "buf ! i"] sint_lt[of "buf ! i"] by (simp add: rd_def)

lemma dyadic_power_int: "(of_int n :: rat) / 2 ^ k = of_int n * power_int 2 (- int k)"
  by (simp add: power_int_minus field_simps)

lemma fl_dyadic_div:
  assumes "\<bar>n\<bar> < 2 ^ 53" "k \<le> 1074"
  shows "fl (of_int n / 2 ^ k) = of_int n / 2 ^ k"
  unfolding dyadic_power_int using assms by (intro fl_dyadic) simp_all

lemma damp_dyadic_eq:
  assumes "\<bar>m\<bar> < 2 ^ 37" "k \<le> 1074"
  shows "damp (of_int m / 2 ^ k) i buf = damp_dyadic m k i buf"
proof -
  define v where "v = rd buf i"
  have vb: "\<bar>v\<bar> \<le> 32768" using rd_bounds[of buf i] unfolding v_def by linarith
  have m53: "\<bar>m\<bar> < 2 ^ 53" using assms(1) by simp
  have "\<bar>v * m\<bar> = \<bar>v\<bar> * \<bar>m\<bar>" by (rule abs_mult)
  also have "\<dots> \<le> 32768 * \<bar>m\<bar>" using vb by (intro mult_right_mono) simp_all
  also have "\<dots> < 32768 * 2 ^ 37" using assms(1) by simp
  finally have vm: "\<bar>v * m\<bar> < 2 ^ 53" by simp
  have "fl (of_int v * fl (of_int m / 2 ^ k)) = fl (of_int (v * m) / 2 ^ k)"
    by (simp add: fl_dyadic_div[OF m53 assms(2)])
  also have "\<dots> = of_int (v * m) / 2 ^ k"
    using vm assms(2) by (rule fl_dyadic_div)
  also have "\<dots> = of_int (v * m) / of_int (2 ^ k)" by simp
  finally have "\<lfloor>fl (of_int v * fl (of_int m / 2 ^ k))\<rfloor> = v * m div 2 ^ k"
    by (simp only: floor_divide_of_int_eq)
  then show ?thesis by (simp add: damp_def damp_dyadic_def v_def)
qed

lemma ripple_dyadic_eq:
  "\<bar>m\<bar> < 2 ^ 37 \<Longrightarrow> k \<le> 1074 \<Longrightarrow> ripple w (of_int m / 2 ^ k) b1 = ripple_dyadic w m k b1"
  by (intro ext) (simp add: ripple_def ripple_dyadic_def damp_dyadic_eq)

lemma propagate_dyadic_eq:
  "\<bar>m\<bar> < 2 ^ 37 \<Longrightarrow> k \<le> 1074 \<Longrightarrow> propagate w h (of_int m / 2 ^ k) b1 b2 = propagate_dyadic w h m k b1 b2"
  by (simp add: propagate_def propagate_dyadic_def ripple_dyadic_eq)

lemma propagate_upto_dyadic_eq:
  "\<bar>m\<bar> < 2 ^ 37 \<Longrightarrow> k \<le> 1074 \<Longrightarrow>
   propagate_upto w (of_int m / 2 ^ k) b1 b2 n = fold (ripple_dyadic w m k b1) [w + 1 ..< n] b2"
  by (simp add: propagate_upto_def ripple_dyadic_eq)

lemma run_Nil: "run [] s = s"
  by (simp add: run_def)

lemma grids_interaction:
  "grids (interaction p s) = (inject (dim_w s) (dim_h s) p (fst (grids s)), snd (grids s))"
  by (simp add: grids_def interaction_def)

lemma interaction_dims [simp]:
  "dim_w (interaction p s) = dim_w s" "dim_h (interaction p s) = dim_h s"
  by (simp_all add: interaction_def)

lemma step_dims [simp]: "dim_w (step e s) = dim_w s" "dim_h (step e s) = dim_h s"
  by (cases e; simp)+

lemma run_dims [simp]: "dim_w (run es s) = dim_w s" "dim_h (run es s) = dim_h s"
  by (induction es arbitrary: s) (simp_all add: run_def)

lemma grids_renderloop:
  assumes "dim_w s \<noteq> 0" "dim_h s \<noteq> 0" "damping config = of_int m / 2 ^ k" "\<bar>m\<bar> < 2 ^ 37" "k \<le> 1074"
  shows "grids (renderloop config texture s) = frames_dyadic (dim_w s) (dim_h s) m k 1 (grids s)"
  using assms by (simp add: grids_def renderloop_buffers propagate_dyadic_eq)

lemma grids_frames:
  assumes "dim_w s \<noteq> 0" "dim_h s \<noteq> 0" "damping config = of_int m / 2 ^ k" "\<bar>m\<bar> < 2 ^ 37" "k \<le> 1074"
  shows "grids (run (replicate n (Animate config texture)) s) = frames_dyadic (dim_w s) (dim_h s) m k n (grids s)"
  using assms(1,2)
proof (induction n arbitrary: s)
  case 0
  show ?case by (simp add: run_def)
next
  case (Suc n)
  let ?s = "renderloop config texture s"
  have d: "dim_w ?s = dim_w s" "dim_h ?s = dim_h s" by simp_all
  have "grids (run (replicate (Suc n) (Animate config texture)) s) = grids (run (replicate n (Animate config texture)) ?s)"
    by (simp add: run_Cons)
  also have "\<dots> = frames_dyadic (dim_w ?s) (dim_h ?s) m k n (grids ?s)"
    using Suc.prems by (intro Suc.IH) simp_all
  also have "grids ?s = (propagate_dyadic (dim_w s) (dim_h s) m k (fst (grids s)) (snd (grids s)), fst (grids s))"
    using Suc.prems assms(3-5) by (simp add: grids_def renderloop_buffers propagate_dyadic_eq)
  finally show ?case by (simp add: d)
qed

lemma frames_dyadic_add:
  "frames_dyadic w h m k (a + c) st = frames_dyadic w h m k c (frames_dyadic w h m k a st)"
  by (induction a arbitrary: st) simp_all

lemma frames_dyadic_cycle:
  assumes "frames_dyadic w h m k p st = st"
  shows "frames_dyadic w h m k (n * p) st = st"
proof (induction n)
  case 0
  show ?case by simp
next
  case (Suc n)
  have "frames_dyadic w h m k (Suc n * p) st = frames_dyadic w h m k (p + n * p) st" by simp
  also have "\<dots> = frames_dyadic w h m k (n * p) (frames_dyadic w h m k p st)"
    by (rule frames_dyadic_add)
  also have "\<dots> = st" by (simp only: assms Suc)
  finally show ?case .
qed

section \<open>Lemmas: the output image\<close>

lemma rd_wave:
  "i < length b2 \<Longrightarrow>
   rd (wave w b1 i b2) i =
     to_int16 ((rd b1 (i - 1) + rd b1 (i + 1) + rd b1 (i - w) + rd b1 (i + w)) div 2 - rd b2 i)"
  by (simp only: wave_def store16_def rd_def nth_list_update_eq sint_word_of_int16)

lemma rd_damp:
  "i < length b2 \<Longrightarrow> rd (damp d i b2) i = to_int16 \<lfloor>fl (of_int (rd b2 i) * fl d)\<rfloor>"
  by (simp add: damp_def store16_def rd_def sint_word_of_int16)

lemma image_clean_iff:
  "image_clean s \<longleftrightarrow>
     (\<forall>im. imageDataBufferRef s = Some im \<longrightarrow>
        length (data im) = 4 * width im * height im \<and>
        (\<forall>k < length (data im). k div 4 \<in> set (loop_range (width im) (height im)) \<or> data im ! k = 0))"
  by (auto simp: image_clean_def list_all_iff split: option.splits)

lemma pixel_loop_length [simp]:
  "length (snd (pixel_loop config w h b1 texture st)) = length (snd st)"
  by (simp add: pixel_loop_def)

lemma pixel_loop_clean_eq:
  assumes len: "length out = 4 * w * h" "length out' = 4 * w * h"
    and clean: "\<forall>k < 4 * w * h. k div 4 \<in> set (loop_range w h) \<or> out ! k = 0"
               "\<forall>k < 4 * w * h. k div 4 \<in> set (loop_range w h) \<or> out' ! k = 0"
  shows "snd (pixel_loop config w h b1 texture (b2, out')) = snd (pixel_loop config w h b1 texture (b2, out))"
proof (rule nth_equalityI)
  show "length (snd (pixel_loop config w h b1 texture (b2, out'))) =
        length (snd (pixel_loop config w h b1 texture (b2, out)))"
    by (simp add: len)
next
  fix k assume "k < length (snd (pixel_loop config w h b1 texture (b2, out')))"
  then have k: "k < 4 * w * h" by (simp add: len)
  show "snd (pixel_loop config w h b1 texture (b2, out')) ! k =
        snd (pixel_loop config w h b1 texture (b2, out)) ! k"
  proof (cases "k div 4 \<in> set (loop_range w h)")
    case True
    have b: "k div 4 * 4 \<le> k" "k \<le> k div 4 * 4 + 3" by linarith+
    show ?thesis
      using pixel_loop_px[OF True b len(2) len(1)] pixel_loop_px[OF True b len(1) len(1)] by simp
  next
    case False
    with clean k have "out ! k = 0" "out' ! k = 0" by auto
    with False show ?thesis by (simp add: pixel_loop_snd_other)
  qed
qed

lemma pixel_loop_clean:
  assumes "length out = 4 * w * h"
    and "\<forall>k < 4 * w * h. k div 4 \<in> set (loop_range w h) \<or> out ! k = 0"
    and "k < 4 * w * h"
  shows "k div 4 \<in> set (loop_range w h) \<or> snd (pixel_loop config w h b1 texture (b2, out)) ! k = 0"
proof (cases "k div 4 \<in> set (loop_range w h)")
  case True
  then show ?thesis by simp
next
  case False
  with assms(2,3) have "out ! k = 0" by auto
  with False show ?thesis by (simp add: pixel_loop_snd_other)
qed

lemma renderloop_image:
  assumes nz: "dim_w s \<noteq> 0" "dim_h s \<noteq> 0" and clean: "image_clean s"
  shows "\<exists>out. length out = 4 * dim_w s * dim_h s \<and>
           (\<forall>k < 4 * dim_w s * dim_h s. k div 4 \<in> set (loop_range (dim_w s) (dim_h s)) \<or> out ! k = 0) \<and>
           imageDataBufferRef (renderloop config texture s) =
             Some \<lparr>width = dim_w s, height = dim_h s,
                   data = snd (pixel_loop config (dim_w s) (dim_h s) (buffer1Ref s) texture (buffer2Ref s, out))\<rparr>"
proof -
  let ?w = "dim_w s" and ?h = "dim_h s"
  let ?zeros = "replicate (4 * ?w * ?h) (0 :: 8 word)"
  have fresh: "length ?zeros = 4 * ?w * ?h \<and>
           (\<forall>k < 4 * ?w * ?h. k div 4 \<in> set (loop_range ?w ?h) \<or> ?zeros ! k = 0)"
    by simp
  show ?thesis
  proof (cases "imageDataBufferRef s")
    case None
    with nz have "imageDataBufferRef (renderloop config texture s) =
        Some \<lparr>width = ?w, height = ?h,
              data = snd (pixel_loop config ?w ?h (buffer1Ref s) texture (buffer2Ref s, ?zeros))\<rparr>"
      by (simp add: renderloop_def Let_def createImageData_def)
    with fresh show ?thesis by blast
  next
    case (Some im)
    show ?thesis
    proof (cases "width im \<noteq> ?w \<or> height im \<noteq> ?h")
      case True
      with nz Some have "imageDataBufferRef (renderloop config texture s) =
          Some \<lparr>width = ?w, height = ?h,
                data = snd (pixel_loop config ?w ?h (buffer1Ref s) texture (buffer2Ref s, ?zeros))\<rparr>"
        by (auto simp: renderloop_def Let_def createImageData_def)
      with fresh show ?thesis by blast
    next
      case False
      then have dims: "width im = ?w" "height im = ?h" by simp_all
      from clean Some have c: "length (data im) = 4 * ?w * ?h"
        "\<forall>k < 4 * ?w * ?h. k div 4 \<in> set (loop_range ?w ?h) \<or> data im ! k = 0"
        by (auto simp: image_clean_iff dims)
      have upd: "im\<lparr>data := x\<rparr> = \<lparr>width = ?w, height = ?h, data = x\<rparr>" for x
        using dims by (cases im) simp
      from nz Some dims have "imageDataBufferRef (renderloop config texture s) =
          Some \<lparr>width = ?w, height = ?h,
                data = snd (pixel_loop config ?w ?h (buffer1Ref s) texture (buffer2Ref s, data im))\<rparr>"
        by (simp add: renderloop_def Let_def upd)
      with c show ?thesis by blast
    qed
  qed
qed

lemma image_clean_renderloop:
  assumes "image_clean s"
  shows "image_clean (renderloop config texture s)"
proof (cases "dim_w s = 0 \<or> dim_h s = 0")
  case True
  with assms show ?thesis by (simp add: renderloop_empty)
next
  case False
  then have nz: "dim_w s \<noteq> 0" "dim_h s \<noteq> 0" by simp_all
  from renderloop_image[OF nz assms, of config texture] obtain out where
    o: "length out = 4 * dim_w s * dim_h s"
       "\<forall>k < 4 * dim_w s * dim_h s. k div 4 \<in> set (loop_range (dim_w s) (dim_h s)) \<or> out ! k = 0"
       "imageDataBufferRef (renderloop config texture s) =
          Some \<lparr>width = dim_w s, height = dim_h s,
                data = snd (pixel_loop config (dim_w s) (dim_h s) (buffer1Ref s) texture (buffer2Ref s, out))\<rparr>"
    by blast
  show ?thesis
    unfolding image_clean_iff o(3)
    using pixel_loop_clean[OF o(1,2)] by (auto simp: o(1))
qed

lemma image_clean_interaction: "image_clean (interaction p s) = image_clean s"
  by (simp add: image_clean_def interaction_def)

lemma image_clean_handleResize: "image_clean (handleResize w h s) = image_clean s"
  by (simp add: image_clean_def handleResize_def)

lemma image_clean_unmounted: "image_clean unmounted"
  by (simp add: image_clean_def unmounted_def)

lemma presented_eq:
  assumes "dim_w s' = dim_w s" "dim_h s' = dim_h s"
    and "buffer1Ref s' = buffer1Ref s" "buffer2Ref s' = buffer2Ref s"
    and "image_clean s" "image_clean s'"
  shows "presented config texture s' = presented config texture s"
proof (cases "dim_w s = 0 \<or> dim_h s = 0")
  case True
  with assms show ?thesis by (simp add: presented_def)
next
  case False
  then have nz: "dim_w s \<noteq> 0" "dim_h s \<noteq> 0" "dim_w s' \<noteq> 0" "dim_h s' \<noteq> 0"
    using assms by simp_all
  from renderloop_image[OF nz(1,2) assms(5), of config texture] obtain out1 where
    o1: "length out1 = 4 * dim_w s * dim_h s"
        "\<forall>k < 4 * dim_w s * dim_h s. k div 4 \<in> set (loop_range (dim_w s) (dim_h s)) \<or> out1 ! k = 0"
        "imageDataBufferRef (renderloop config texture s) =
           Some \<lparr>width = dim_w s, height = dim_h s,
                 data = snd (pixel_loop config (dim_w s) (dim_h s) (buffer1Ref s) texture (buffer2Ref s, out1))\<rparr>"
    by blast
  from renderloop_image[OF nz(3,4) assms(6), of config texture] obtain out2 where
    o2: "length out2 = 4 * dim_w s * dim_h s"
        "\<forall>k < 4 * dim_w s * dim_h s. k div 4 \<in> set (loop_range (dim_w s) (dim_h s)) \<or> out2 ! k = 0"
        "imageDataBufferRef (renderloop config texture s') =
           Some \<lparr>width = dim_w s, height = dim_h s,
                 data = snd (pixel_loop config (dim_w s) (dim_h s) (buffer1Ref s) texture (buffer2Ref s, out2))\<rparr>"
    unfolding assms(1-4) by blast
  from False assms(1,2) show ?thesis
    by (simp add: presented_def o1(3) o2(3) pixel_loop_clean_eq[OF o1(1) o2(1) o1(2) o2(2)])
qed

lemma renderloop_grids_eq:
  assumes "dim_w s' = dim_w s" "dim_h s' = dim_h s"
    and "buffer1Ref s' = buffer1Ref s" "buffer2Ref s' = buffer2Ref s"
    and "damping config' = damping config"
  shows "buffer1Ref (renderloop config' texture' s') = buffer1Ref (renderloop config texture s) \<and>
         buffer2Ref (renderloop config' texture' s') = buffer2Ref (renderloop config texture s)"
proof (cases "dim_w s = 0 \<or> dim_h s = 0")
  case True
  with assms show ?thesis by (auto simp: renderloop_empty)
next
  case False
  with assms show ?thesis by (simp add: renderloop_buffers)
qed

section \<open>Claims\<close>

subsection \<open>C1: the propagation formula\<close>

text \<open>
  Claim C1, as amended. For every interior index \<open>i\<close> of same-size grids \<open>prev\<close> and
  \<open>cur\<close>, one propagation step leaves in \<open>next[i]\<close> the value
  \<open>floor((cur[i-1] + cur[i+1] + cur[i-w] + cur[i+w]) / 2) - prev[i]\<close>, converted to a
  16-bit signed integer, then multiplied by \<open>damping\<close> as doubles (the product rounded to
  the nearest double), floored, and converted to 16 bits again. The halving and the floor
  both go towards minus infinity, not towards zero.
\<close>

theorem propagate_interior:
  assumes "length cur = w * h" "length prev = w * h" "interior w h i"
  shows "rd (propagate w h d cur prev) i =
           to_int16 \<lfloor>fl (of_int (to_int16
             ((rd cur (i - 1) + rd cur (i + 1) + rd cur (i - w) + rd cur (i + w)) div 2 - rd prev i)) * fl d)\<rfloor>"
proof -
  from assms(3) have r: "i \<in> set (loop_range w h)" by (rule interior_loop_range)
  from assms(3) have "i < w * h" by (simp add: interior_def)
  with assms(2) r have "propagate w h d cur prev ! i = cell_next w d cur i (prev ! i)"
    by (simp add: propagate_nth)
  then show ?thesis by (simp add: rd_def rd_cell_next)
qed

text \<open>
  The theorem at a 3 by 3 grid and damping 0.94, where the wave value of the centre is 2150:
  the double product is just below 2021 and the cell becomes 2020.
\<close>

theorem propagate_interior_witness:
  "length [0, 0, 0, 4300, 0, 0, 0, 0, 0 :: 16 word] = 3 * 3 \<and> length (replicate 9 (0 :: 16 word)) = 3 * 3 \<and>
   interior 3 3 4 \<and>
   rd (propagate 3 3 (47 / 50) [0, 0, 0, 4300, 0, 0, 0, 0, 0] (replicate 9 0)) 4 = 2020"
proof -
  have a: "length [0, 0, 0, 4300, 0, 0, 0, 0, 0 :: 16 word] = 3 * 3" by simp
  have b: "length (replicate 9 (0 :: 16 word)) = 3 * 3" by simp
  have c: "interior 3 3 4" by (simp add: interior_def)
  have "to_int16 \<lfloor>fl (of_int (to_int16
             ((rd [0, 0, 0, 4300, 0, 0, 0, 0, 0] (4 - 1) + rd [0, 0, 0, 4300, 0, 0, 0, 0, 0] (4 + 1)
               + rd [0, 0, 0, 4300, 0, 0, 0, 0, 0] (4 - 3) + rd [0, 0, 0, 4300, 0, 0, 0, 0, 0] (4 + 3)) div 2
               - rd (replicate 9 0) 4)) * fl (47 / 50))\<rfloor> = 2020"
    by code_simp
  with propagate_interior[OF a b c, of "47 / 50"] a b c show ?thesis by simp
qed

text \<open>
  The claim as stated fails: with a neighbour sum of \<open>-1\<close> the code stores \<open>-1\<close>, where a
  halving truncated towards zero gives \<open>0\<close>; and with four neighbours of \<open>32767\<close> the code
  stores \<open>-2\<close>, where the formula without the 16-bit conversion gives \<open>49150\<close>.
\<close>

theorem propagate_truncation_counterexample:
  "rd (propagate 3 3 (1 / 2) [0, 0, 0, - 1, 0, 0, 0, 0, 0] (replicate 9 0)) 4 = - 1 \<and>
   next_truncating 3 (1 / 2) [0, 0, 0, - 1, 0, 0, 0, 0, 0] (replicate 9 0) 4 = 0 \<and>
   rd (propagate 3 3 (3 / 4) (replicate 9 32767) (replicate 9 0)) 4 = - 2 \<and>
   next_unbounded 3 (3 / 4) (replicate 9 32767) (replicate 9 0) 4 = 49150"
  by code_simp

subsection \<open>C2: cells that propagation never writes\<close>

text \<open>
  Claim C2, as amended. For every grid and every sequence of pointer updates and
  animation frames, every cell with index \<open>i \<le> w\<close> or \<open>i \<ge> w * h - w - 1\<close> (the top and
  bottom rows, the first cell of the second row and the last cell of the last but one row)
  is never written by propagation: it holds what initialisation or the last injection
  wrote there, as in a run whose frames only swap the buffers.
\<close>

theorem outer_rows_fixed:
  assumes "length (buffer1Ref s) = dim_w s * dim_h s" "length (buffer2Ref s) = dim_w s * dim_h s"
    and "untouched (dim_w s) (dim_h s) i"
  shows "buffer1Ref (run es s) ! i = buffer1Ref (last_written es s) ! i \<and>
         buffer2Ref (run es s) ! i = buffer2Ref (last_written es s) ! i"
proof -
  from assms(1,2) have "same_at i s s" by (simp add: same_at_def)
  from run_same_at[OF this assms(3), of es] show ?thesis
    by (simp add: same_at_def run_def last_written_def)
qed

text \<open>
  The theorem on a 4 by 4 grid after one injection and two frames, at cell 2 of the top row.
\<close>

theorem outer_rows_fixed_witness:
  "length (buffer1Ref (handleResize 4 4 unmounted)) = dim_w (handleResize 4 4 unmounted) * dim_h (handleResize 4 4 unmounted) \<and>
   length (buffer2Ref (handleResize 4 4 unmounted)) = dim_w (handleResize 4 4 unmounted) * dim_h (handleResize 4 4 unmounted) \<and>
   untouched (dim_w (handleResize 4 4 unmounted)) (dim_h (handleResize 4 4 unmounted)) 2 \<and>
   buffer1Ref (run [Interaction centre, Animate (theme (7 / 8)) (replicate 64 17), Animate (theme (7 / 8)) (replicate 64 17)]
      (handleResize 4 4 unmounted)) ! 2 = 600 \<and>
   buffer2Ref (run [Interaction centre, Animate (theme (7 / 8)) (replicate 64 17), Animate (theme (7 / 8)) (replicate 64 17)]
      (handleResize 4 4 unmounted)) ! 2 = 0"
proof -
  let ?s = "handleResize 4 4 unmounted"
  let ?es = "[Interaction centre, Animate (theme (7 / 8)) (replicate 64 17), Animate (theme (7 / 8)) (replicate 64 17)]"
  have a: "length (buffer1Ref ?s) = dim_w ?s * dim_h ?s" by (simp add: handleResize_def unmounted_def)
  have b: "length (buffer2Ref ?s) = dim_w ?s * dim_h ?s" by (simp add: handleResize_def unmounted_def)
  have c: "untouched (dim_w ?s) (dim_h ?s) 2" by (simp add: handleResize_def unmounted_def untouched_def)
  have d: "buffer1Ref (last_written ?es ?s) ! 2 = 600 \<and> buffer2Ref (last_written ?es ?s) ! 2 = 0"
    by code_simp
  from outer_rows_fixed[OF a b c, of ?es] a b c d show ?thesis by simp
qed

text \<open>
  The claim as stated fails for the left and right border columns: on a 4 by 4 grid, after
  one injection and one frame, the border cell 7 (\<open>x = w - 1\<close>, \<open>y = 1\<close>) of the propagated
  buffer holds 600, although nothing but propagation ever wrote to it.
\<close>

theorem border_written_counterexample:
  "border 4 4 7 \<and>
   buffer1Ref (run [Interaction centre, Animate (theme (1 / 2)) (replicate 64 17)] (handleResize 4 4 unmounted)) ! 7 = 600 \<and>
   buffer1Ref (last_written [Interaction centre, Animate (theme (1 / 2)) (replicate 64 17)] (handleResize 4 4 unmounted)) ! 7 = 0"
proof -
  let ?A = "Animate (theme (1 / 2)) (replicate 64 17)"
  let ?s = "interaction centre (handleResize 4 4 unmounted)"
  have dims: "dim_w (handleResize 4 4 unmounted) = 4" "dim_h (handleResize 4 4 unmounted) = 4"
    by (simp_all add: handleResize_def)
  have inj: "grids ?s = (replicate 16 600, replicate 16 0)" by code_simp
  have "grids (run (replicate 1 ?A) ?s) = frames_dyadic (dim_w ?s) (dim_h ?s) 1 1 1 (grids ?s)"
    by (rule grids_frames) (simp_all add: handleResize_def theme_def)
  then have "grids (run [?A] ?s) = frames_dyadic 4 4 1 1 1 (replicate 16 600, replicate 16 0)"
    by (simp add: dims inj)
  moreover have "fst (frames_dyadic 4 4 1 1 1 (replicate 16 600, replicate 16 0)) ! 7 = 600"
    by code_simp
  ultimately have "buffer1Ref (run [Interaction centre, ?A] (handleResize 4 4 unmounted)) ! 7 = 600"
    by (simp add: run_Cons grids_def)
  moreover have "border 4 4 7" by (simp add: border_def)
  moreover have "buffer1Ref (last_written [Interaction centre, ?A] (handleResize 4 4 unmounted)) ! 7 = 0"
    by code_simp
  ultimately show ?thesis by simp
qed

subsection \<open>C3: the grid that the gradients are read from\<close>

text \<open>
  Claim C3, as amended. For every interior pixel \<open>i\<close> rendered in a frame, the gradients
  are read from \<open>buffer2\<close> as it stands right after the physics of cell \<open>i\<close>:
  \<open>gx = new[i-1] - old[i+1]\<close> and \<open>gy = new[i-w] - old[i+w]\<close>, where \<open>new\<close> is the grid that the
  frame's propagation ends with and \<open>old\<close> is the content of \<open>buffer2\<close> before the frame;
  the four output bytes of the pixel are those rendered from that intermediate buffer.
\<close>

theorem gradients_mid_loop:
  assumes "length b1 = w * h" "length b2 = w * h" "length out = 4 * w * h" "interior w h i"
  shows "xOffset (propagate_upto w (damping config) b1 b2 (Suc i)) i =
           rd (propagate w h (damping config) b1 b2) (i - 1) - rd b2 (i + 1) \<and>
         yOffset w (propagate_upto w (damping config) b1 b2 (Suc i)) i =
           rd (propagate w h (damping config) b1 b2) (i - w) - rd b2 (i + w) \<and>
         (\<forall>k. i * 4 \<le> k \<and> k \<le> i * 4 + 3 \<longrightarrow>
            snd (pixel_loop config w h b1 texture (b2, out)) ! k =
            refract config w h texture (propagate_upto w (damping config) b1 b2 (Suc i)) i out ! k)"
proof -
  let ?d = "damping config"
  from assms(4) have r: "i \<in> set (loop_range w h)" by (rule interior_loop_range)
  then have bounds: "w + 1 \<le> i" "i + w + 1 < w * h" by (auto simp: loop_range_def)
  have in_range: "\<And>k. k \<in> set (loop_range w h) \<longleftrightarrow> w + 1 \<le> k \<and> k + w + 1 < w * h"
    by (auto simp: loop_range_def)
  have m: "Suc i \<le> w * h" using bounds by simp
  have wpos: "0 < w" using bounds(2) by (cases w) auto
  have left: "propagate_upto w ?d b1 b2 (Suc i) ! (i - 1) = propagate w h ?d b1 b2 ! (i - 1)"
    using bounds assms(2) m by (simp add: propagate_upto_nth propagate_nth in_range) 
  have up: "propagate_upto w ?d b1 b2 (Suc i) ! (i - w) = propagate w h ?d b1 b2 ! (i - w)"
    using bounds assms(2) m wpos by (simp add: propagate_upto_nth propagate_nth in_range) 
  have right: "propagate_upto w ?d b1 b2 (Suc i) ! (i + 1) = b2 ! (i + 1)"
    using bounds assms(2) m by (simp add: propagate_upto_nth)
  have down: "propagate_upto w ?d b1 b2 (Suc i) ! (i + w) = b2 ! (i + w)"
    using bounds assms(2) m wpos by (simp add: propagate_upto_nth)
  have px: "\<forall>k. i * 4 \<le> k \<and> k \<le> i * 4 + 3 \<longrightarrow>
            snd (pixel_loop config w h b1 texture (b2, out)) ! k =
            refract config w h texture (propagate_upto w ?d b1 b2 (Suc i)) i out ! k"
    using pixel_loop_px[OF r _ _ assms(3) assms(3)] by blast
  from left up right down px show ?thesis
    by (simp add: xOffset_def yOffset_def rd_def)
qed

text \<open>
  The theorem on a 4 by 4 grid right after an injection that filled \<open>buffer1\<close>, at pixel 5.
\<close>

theorem gradients_mid_loop_witness:
  "length (replicate 16 (600 :: 16 word)) = 4 * 4 \<and> length (replicate 16 (0 :: 16 word)) = 4 * 4 \<and>
   length (replicate 64 (0 :: 8 word)) = 4 * 4 * 4 \<and> interior 4 4 5 \<and>
   xOffset (propagate_upto 4 (damping (theme (7 / 8))) (replicate 16 600) (replicate 16 0) (Suc 5)) 5 = 0 \<and>
   yOffset 4 (propagate_upto 4 (damping (theme (7 / 8))) (replicate 16 600) (replicate 16 0) (Suc 5)) 5 = 0 \<and>
   snd (pixel_loop (theme (7 / 8)) 4 4 (replicate 16 600) (map of_nat [0 ..< 64]) (replicate 16 0, replicate 64 0)) ! 20 = 20"
proof -
  have a: "length (replicate 16 (600 :: 16 word)) = 4 * 4" by simp
  have b: "length (replicate 16 (0 :: 16 word)) = 4 * 4" by simp
  have c: "length (replicate 64 (0 :: 8 word)) = 4 * 4 * 4" by simp
  have d: "interior 4 4 5" by (simp add: interior_def)
  have dd: "damping (theme (7 / 8)) = of_int 7 / 2 ^ 3" by (simp add: theme_def)
  have post: "propagate 4 4 (damping (theme (7 / 8))) (replicate 16 600) (replicate 16 0) =
              [0, 0, 0, 0, 0, 1050, 1050, 1050, 1050, 1050, 1050, 0, 0, 0, 0, 0]"
    unfolding dd by (subst propagate_dyadic_eq) (simp, simp, code_simp)
  have mid: "propagate_upto 4 (damping (theme (7 / 8))) (replicate 16 600) (replicate 16 0) (Suc 5) =
             (replicate 16 0)[5 := 1050]"
    unfolding dd by (subst propagate_upto_dyadic_eq) (simp, simp, code_simp)
  have e: "rd (propagate 4 4 (damping (theme (7 / 8))) (replicate 16 600) (replicate 16 0)) (5 - 1) - rd (replicate 16 0) (5 + 1) = 0"
    unfolding post by code_simp
  have f: "rd (propagate 4 4 (damping (theme (7 / 8))) (replicate 16 600) (replicate 16 0)) (5 - 4) - rd (replicate 16 0) (5 + 4) = 0"
    unfolding post by code_simp
  have g: "refract (theme (7 / 8)) 4 4 (map of_nat [0 ..< 64])
             (propagate_upto 4 (damping (theme (7 / 8))) (replicate 16 600) (replicate 16 0) (Suc 5)) 5 (replicate 64 0) ! 20 = 20"
    unfolding mid by code_simp
  from gradients_mid_loop[OF a b c d, of "theme (7 / 8)" "map of_nat [0 ..< 64]"] a b c d e f g
  show ?thesis by simp
qed

text \<open>
  The claim as stated fails there: the loop uses the gradient 0 at pixel 5 and copies the
  texture byte 20 unchanged, while the completed grid has the gradient \<open>-1050\<close>, from which
  the renderer would give the byte 0.
\<close>

theorem gradients_post_counterexample:
  "interior 4 4 5 \<and>
   xOffset (propagate_upto 4 (7 / 8) (replicate 16 600) (replicate 16 0) (Suc 5)) 5 = 0 \<and>
   xOffset (propagate 4 4 (7 / 8) (replicate 16 600) (replicate 16 0)) 5 = - 1050 \<and>
   snd (pixel_loop (theme (7 / 8)) 4 4 (replicate 16 600) (map of_nat [0 ..< 64]) (replicate 16 0, replicate 64 0)) ! 20 = 20 \<and>
   refract (theme (7 / 8)) 4 4 (map of_nat [0 ..< 64])
      (propagate 4 4 (7 / 8) (replicate 16 600) (replicate 16 0)) 5 (replicate 64 0) ! 20 = 0"
proof -
  let ?b1 = "replicate 16 (600 :: 16 word)"
  let ?b2 = "replicate 16 (0 :: 16 word)"
  let ?tex = "map of_nat [0 ..< 64] :: pixels"
  have d: "(7 / 8 :: rat) = of_int 7 / 2 ^ 3" "damping (theme (7 / 8)) = of_int 7 / 2 ^ 3"
    by (simp_all add: theme_def)
  have mid: "propagate_upto 4 (7 / 8) ?b1 ?b2 (Suc 5) = ?b2[5 := 1050]"
    unfolding d(1) by (subst propagate_upto_dyadic_eq) (simp, simp, code_simp)
  have post: "propagate 4 4 (7 / 8) ?b1 ?b2 = [0, 0, 0, 0, 0, 1050, 1050, 1050, 1050, 1050, 1050, 0, 0, 0, 0, 0]"
    unfolding d(1) by (subst propagate_dyadic_eq) (simp, simp, code_simp)
  have r: "5 \<in> set (loop_range 4 4)" by (simp add: loop_range_def)
  have "snd (pixel_loop (theme (7 / 8)) 4 4 ?b1 ?tex (?b2, replicate 64 0)) ! 20 =
        refract (theme (7 / 8)) 4 4 ?tex (propagate_upto 4 (damping (theme (7 / 8))) ?b1 ?b2 (Suc 5)) 5 (replicate 64 0) ! 20"
    by (rule pixel_loop_px[OF r]) simp_all
  also have "\<dots> = refract (theme (7 / 8)) 4 4 ?tex (?b2[5 := 1050]) 5 (replicate 64 0) ! 20"
    using mid by (simp add: theme_def)
  also have "\<dots> = 20" by code_simp
  finally have out: "snd (pixel_loop (theme (7 / 8)) 4 4 ?b1 ?tex (?b2, replicate 64 0)) ! 20 = 20" .
  have x1: "xOffset (?b2[5 := 1050]) 5 = 0" by code_simp
  have x2: "xOffset [0, 0, 0, 0, 0, 1050, 1050, 1050, 1050, 1050, 1050, 0, 0, 0, 0, 0] 5 = - 1050" by code_simp
  have r2: "refract (theme (7 / 8)) 4 4 ?tex [0, 0, 0, 0, 0, 1050, 1050, 1050, 1050, 1050, 1050, 0, 0, 0, 0, 0] 5
              (replicate 64 0) ! 20 = 0"
    by code_simp
  have "interior 4 4 5" by (simp add: interior_def)
  with out x1 x2 r2 show ?thesis unfolding mid post by simp
qed

subsection \<open>C4: injection on a 10 by 10 grid\<close>

text \<open>
  Claim C4. On a 10 by 10 grid, an injection at the active point (0.5, 0.5) sets every cell
  whose squared distance from pixel (5, 5) is below 16 to exactly 600, whatever it held,
  and leaves every other cell as it was.
\<close>

theorem inject_10x10:
  assumes "length buf = 100"
  shows "inject 10 10 \<lparr>pt_x = 1 / 2, pt_y = 1 / 2, active = True\<rparr> buf =
         map (\<lambda>k. if (int (k mod 10) - 5) * (int (k mod 10) - 5) + (int (k div 10) - 5) * (int (k div 10) - 5) < 16
                   then 600 else buf ! k) [0 ..< 100]"
proof (rule nth_equalityI)
  show "length (inject 10 10 \<lparr>pt_x = 1 / 2, pt_y = 1 / 2, active = True\<rparr> buf) =
        length (map (\<lambda>k. if (int (k mod 10) - 5) * (int (k mod 10) - 5) + (int (k div 10) - 5) * (int (k div 10) - 5) < 16
                   then 600 else buf ! k) [0 ..< 100])"
    using assms by simp
next
  fix k assume "k < length (inject 10 10 \<lparr>pt_x = 1 / 2, pt_y = 1 / 2, active = True\<rparr> buf)"
  then have k: "k < 100" using assms by simp
  have centre_pixel: "\<lfloor>fl (fl (1 / 2) * 10)\<rfloor> = 5" by code_simp
  from k show "inject 10 10 \<lparr>pt_x = 1 / 2, pt_y = 1 / 2, active = True\<rparr> buf ! k =
        map (\<lambda>k. if (int (k mod 10) - 5) * (int (k mod 10) - 5) + (int (k div 10) - 5) * (int (k div 10) - 5) < 16
                   then 600 else buf ! k) [0 ..< 100] ! k"
    using assms by (simp add: inject_nth in_drop_def centre_pixel del: upt.simps)
qed

text \<open>
  The theorem on a grid that holds 7 everywhere.
\<close>

theorem inject_10x10_witness:
  "length (replicate 100 (7 :: 16 word)) = 100 \<and>
   inject 10 10 \<lparr>pt_x = 1 / 2, pt_y = 1 / 2, active = True\<rparr> (replicate 100 7) =
         map (\<lambda>k. if (int (k mod 10) - 5) * (int (k mod 10) - 5) + (int (k div 10) - 5) * (int (k div 10) - 5) < 16
                   then 600 else replicate 100 7 ! k) [0 ..< 100]"
  using inject_10x10[of "replicate 100 7"] by simp

subsection \<open>C5: a flat grid does not distort\<close>

text \<open>
  Claim C5. For every texture, theme and shimmer, a frame on flat grids (all amplitudes
  zero) gives, for every interior pixel, zero displacement, shading 0, tint factor 0, and
  output bytes equal to the texture's red, green and blue at that pixel, with alpha 255;
  the grid stays flat.
\<close>

theorem flat_grid_round_trip:
  assumes "interior w h i" "length texture = 4 * w * h" "length out = 4 * w * h"
  shows "fst (pixel_loop config w h (flat w h) texture (flat w h, out)) = flat w h \<and>
         refract config w h texture (flat w h) i out = copy_px texture (i * 4) (i * 4) out \<and>
         distortion (shimmer config) (xOffset (flat w h) i) = 0 \<and>
         distortion (shimmer config) (yOffset w (flat w h) i) = 0 \<and>
         shading w (flat w h) i = 0 \<and>
         tintFactor (distortion (shimmer config) (xOffset (flat w h) i))
                    (distortion (shimmer config) (yOffset w (flat w h) i)) = 0 \<and>
         snd (pixel_loop config w h (flat w h) texture (flat w h, out)) ! (i * 4) = texture ! (i * 4) \<and>
         snd (pixel_loop config w h (flat w h) texture (flat w h, out)) ! (i * 4 + 1) = texture ! (i * 4 + 1) \<and>
         snd (pixel_loop config w h (flat w h) texture (flat w h, out)) ! (i * 4 + 2) = texture ! (i * 4 + 2) \<and>
         snd (pixel_loop config w h (flat w h) texture (flat w h, out)) ! (i * 4 + 3) = 255"
proof -
  from assms(1) have r: "i \<in> set (loop_range w h)" by (rule interior_loop_range)
  then have bounds: "w + 1 \<le> i" "i + w + 1 < w * h" by (auto simp: loop_range_def)
  then have iw: "i + w < w * h" by simp
  have wpos: "0 < w" using bounds(2) by (cases w) auto
  have len: "i * 4 + 3 < length out" using iw assms(3) by simp
  have up: "propagate_upto w (damping config) (flat w h) (flat w h) (Suc i) = flat w h"
    using bounds wpos by (intro propagate_upto_flat) simp_all
  have px: "\<And>k. i * 4 \<le> k \<Longrightarrow> k \<le> i * 4 + 3 \<Longrightarrow>
      snd (pixel_loop config w h (flat w h) texture (flat w h, out)) ! k =
      copy_px texture (i * 4) (i * 4) out ! k"
    using pixel_loop_px[OF r _ _ assms(3) assms(3), of _ config "flat w h" texture "flat w h"]
    by (simp add: up refract_flat[OF wpos iw])
  have grid: "fst (pixel_loop config w h (flat w h) texture (flat w h, out)) = flat w h"
    by (simp add: pixel_loop_fst propagate_flat)
  have c0: "copy_px texture (i * 4) (i * 4) out ! (i * 4) = texture ! (i * 4)"
    and c1: "copy_px texture (i * 4) (i * 4) out ! (i * 4 + 1) = texture ! (i * 4 + 1)"
    and c2: "copy_px texture (i * 4) (i * 4) out ! (i * 4 + 2) = texture ! (i * 4 + 2)"
    and c3: "copy_px texture (i * 4) (i * 4) out ! (i * 4 + 3) = 255"
    using len by (simp_all add: copy_px_def)
  from grid px[of "i * 4"] px[of "i * 4 + 1"] px[of "i * 4 + 2"] px[of "i * 4 + 3"] c0 c1 c2 c3
  show ?thesis by (simp add: flat_offsets[OF iw wpos] refract_flat[OF wpos iw])
qed

text \<open>
  The theorem on a 4 by 4 frame at pixel 5.
\<close>

theorem flat_grid_round_trip_witness:
  "interior 4 4 5 \<and> length (map of_nat [0 ..< 64] :: pixels) = 4 * 4 * 4 \<and>
   length (replicate 64 (0 :: 8 word)) = 4 * 4 * 4 \<and>
   snd (pixel_loop (theme (7 / 8)) 4 4 (flat 4 4) (map of_nat [0 ..< 64]) (flat 4 4, replicate 64 0)) ! (5 * 4) = 20 \<and>
   snd (pixel_loop (theme (7 / 8)) 4 4 (flat 4 4) (map of_nat [0 ..< 64]) (flat 4 4, replicate 64 0)) ! (5 * 4 + 3) = 255"
proof -
  have a: "interior 4 4 5" by (simp add: interior_def)
  have b: "length (map of_nat [0 ..< 64] :: pixels) = 4 * 4 * 4" by simp
  have c: "length (replicate 64 (0 :: 8 word)) = 4 * 4 * 4" by simp
  have d: "(map of_nat [0 ..< 64] :: pixels) ! (5 * 4) = 20" by code_simp
  from flat_grid_round_trip[OF a b c, of "theme (7 / 8)"] a b c d show ?thesis by simp
qed

subsection \<open>C6: injection is idempotent\<close>

text \<open>
  Claim C6. Injection is idempotent: for every grid, point and dimensions, injecting twice
  with the same point gives the same grid as injecting once; and with the point's
  \<open>active\<close> flag false, injection leaves the grid unchanged.
\<close>

theorem inject_idempotent:
  "inject w h p (inject w h p buf) = inject w h p buf \<and> inject w h (p\<lparr>active := False\<rparr>) buf = buf"
proof
  show "inject w h p (inject w h p buf) = inject w h p buf"
    by (rule nth_equalityI) (simp_all add: inject_nth)
  show "inject w h (p\<lparr>active := False\<rparr>) buf = buf"
    by (simp add: inject_def)
qed

subsection \<open>C7: rendering is a function of grids, texture and theme\<close>

text \<open>
  Claim C7. Two frames on states with the same dimensions and the same two grids, given
  the same texture and theme, hand the same image to the canvas: the same width, the same
  height and the same output buffer, byte for byte. The output buffers that the two states
  held before the frame may differ, within what the component can hold: the bytes of pixels
  outside the loop are the zeros that \<open>createImageData\<close> put there, which is so before the
  first resize and is kept by every resize, pointer update and frame. The grids that a
  frame ends with depend on the grids and the damping alone: another texture, other
  colours, another shimmer or another output buffer give the same two grids, so the
  rendering statements write nothing into a grid.
\<close>

theorem render_deterministic:
  assumes "dim_w s' = dim_w s" "dim_h s' = dim_h s"
    and "buffer1Ref s' = buffer1Ref s" "buffer2Ref s' = buffer2Ref s"
    and "image_clean s" "image_clean s'"
    and "damping config' = damping config"
  shows "presented config texture s' = presented config texture s \<and>
         buffer1Ref (renderloop config' texture' s') = buffer1Ref (renderloop config texture s) \<and>
         buffer2Ref (renderloop config' texture' s') = buffer2Ref (renderloop config texture s) \<and>
         image_clean (renderloop config texture s) \<and>
         image_clean (interaction p s) \<and>
         image_clean (handleResize w h s) \<and>
         image_clean unmounted"
  using presented_eq[OF assms(1-6)] renderloop_grids_eq[OF assms(1-4,7)]
    image_clean_renderloop[OF assms(5)] assms(5)
  by (simp add: image_clean_interaction image_clean_handleResize image_clean_unmounted)

text \<open>
  The theorem for a state without an output buffer and a state whose buffer holds 9s in
  the pixels of the loop: on flat grids both present the texture with alpha 255 on the six
  pixels of the loop and zeros elsewhere.
\<close>

theorem render_deterministic_witness:
  "dim_w ((handleResize 4 4 unmounted)\<lparr>imageDataBufferRef :=
       Some \<lparr>width = 4, height = 4, data = replicate 20 0 @ replicate 24 9 @ replicate 20 0\<rparr>\<rparr>)
     = dim_w (handleResize 4 4 unmounted) \<and>
   dim_h ((handleResize 4 4 unmounted)\<lparr>imageDataBufferRef :=
       Some \<lparr>width = 4, height = 4, data = replicate 20 0 @ replicate 24 9 @ replicate 20 0\<rparr>\<rparr>)
     = dim_h (handleResize 4 4 unmounted) \<and>
   buffer1Ref ((handleResize 4 4 unmounted)\<lparr>imageDataBufferRef :=
       Some \<lparr>width = 4, height = 4, data = replicate 20 0 @ replicate 24 9 @ replicate 20 0\<rparr>\<rparr>)
     = buffer1Ref (handleResize 4 4 unmounted) \<and>
   buffer2Ref ((handleResize 4 4 unmounted)\<lparr>imageDataBufferRef :=
       Some \<lparr>width = 4, height = 4, data = replicate 20 0 @ replicate 24 9 @ replicate 20 0\<rparr>\<rparr>)
     = buffer2Ref (handleResize 4 4 unmounted) \<and>
   image_clean (handleResize 4 4 unmounted) \<and>
   image_clean ((handleResize 4 4 unmounted)\<lparr>imageDataBufferRef :=
       Some \<lparr>width = 4, height = 4, data = replicate 20 0 @ replicate 24 9 @ replicate 20 0\<rparr>\<rparr>) \<and>
   damping ((theme (7 / 8))\<lparr>shimmer := 9, baseColor := ''#ff0000''\<rparr>) = damping (theme (7 / 8)) \<and>
   presented (theme (7 / 8)) (map of_nat [0 ..< 64])
     ((handleResize 4 4 unmounted)\<lparr>imageDataBufferRef :=
       Some \<lparr>width = 4, height = 4, data = replicate 20 0 @ replicate 24 9 @ replicate 20 0\<rparr>\<rparr>)
   = presented (theme (7 / 8)) (map of_nat [0 ..< 64]) (handleResize 4 4 unmounted) \<and>
   presented (theme (7 / 8)) (map of_nat [0 ..< 64]) (handleResize 4 4 unmounted)
   = Some \<lparr>width = 4, height = 4,
       data = replicate 20 0 @
              [20, 21, 22, 255, 24, 25, 26, 255, 28, 29, 30, 255,
               32, 33, 34, 255, 36, 37, 38, 255, 40, 41, 42, 255] @ replicate 20 0\<rparr> \<and>
   buffer1Ref (renderloop ((theme (7 / 8))\<lparr>shimmer := 9, baseColor := ''#ff0000''\<rparr>) (replicate 64 200)
     ((handleResize 4 4 unmounted)\<lparr>imageDataBufferRef :=
       Some \<lparr>width = 4, height = 4, data = replicate 20 0 @ replicate 24 9 @ replicate 20 0\<rparr>\<rparr>))
   = buffer1Ref (renderloop (theme (7 / 8)) (map of_nat [0 ..< 64]) (handleResize 4 4 unmounted)) \<and>
   image_clean (renderloop (theme (7 / 8)) (map of_nat [0 ..< 64]) (handleResize 4 4 unmounted))"
proof -
  let ?s = "handleResize 4 4 unmounted"
  let ?s' = "?s\<lparr>imageDataBufferRef :=
       Some \<lparr>width = 4, height = 4, data = replicate 20 0 @ replicate 24 9 @ replicate 20 0\<rparr>\<rparr>"
  have a: "dim_w ?s' = dim_w ?s" "dim_h ?s' = dim_h ?s" "buffer1Ref ?s' = buffer1Ref ?s" "buffer2Ref ?s' = buffer2Ref ?s"
    by simp_all
  have im: "image_clean ?s"
    by (simp add: image_clean_def handleResize_def unmounted_def)
  have im': "image_clean ?s'"
    by code_simp
  have dmp: "damping ((theme (7 / 8))\<lparr>shimmer := 9, baseColor := ''#ff0000''\<rparr>) = damping (theme (7 / 8))"
    by simp
  have val: "presented (theme (7 / 8)) (map of_nat [0 ..< 64]) ?s
   = Some \<lparr>width = 4, height = 4,
       data = replicate 20 0 @
              [20, 21, 22, 255, 24, 25, 26, 255, 28, 29, 30, 255,
               32, 33, 34, 255, 36, 37, 38, 255, 40, 41, 42, 255] @ replicate 20 0\<rparr>"
    by code_simp
  from render_deterministic[OF a im im' dmp, of "map of_nat [0 ..< 64]" "replicate 64 200"] a im im' dmp val
  show ?thesis by blast
qed

subsection \<open>C8: damping and decay\<close>

text \<open>
  Claim C8, as amended. With damping strictly between 0 and 1, the damping assignment never
  increases a cell's magnitude: the value it stores, the floor of the double product, is at
  most, in absolute value, the 16-bit value it damps. A pair of all-zero grids stays
  all-zero under any number of frames without injection. A grid that is not all zero need
  not decay, for two reasons: the cells that the loop never reaches keep what an injection
  wrote there and drive their neighbours, and \<open>Math.floor\<close> rounds towards minus infinity,
  so that a small negative amplitude is stored back as it is.
\<close>

theorem damping_shrinks_and_rest_stays:
  assumes "0 < d" "d < 1" "i < length b2"
    and "buffer1Ref s = flat (dim_w s) (dim_h s)" "buffer2Ref s = flat (dim_w s) (dim_h s)"
  shows "\<bar>rd (damp d i b2) i\<bar> \<le> \<bar>rd b2 i\<bar> \<and>
         \<bar>rd (ripple w d b1 i b2) i\<bar>
           \<le> \<bar>to_int16 ((rd b1 (i - 1) + rd b1 (i + 1) + rd b1 (i - w) + rd b1 (i + w)) div 2 - rd b2 i)\<bar> \<and>
         buffer1Ref (run (map (\<lambda>(config, texture). Animate config texture) fs) s) = flat (dim_w s) (dim_h s) \<and>
         buffer2Ref (run (map (\<lambda>(config, texture). Animate config texture) fs) s) = flat (dim_w s) (dim_h s)"
proof -
  have shrink: "\<bar>to_int16 \<lfloor>fl (of_int v * fl d)\<rfloor>\<bar> \<le> \<bar>v\<bar>" if "- 32768 \<le> v" "v \<le> 32767" for v
  proof -
    note bnd = damped_bounds[OF assms(1,2) that]
    have m: "\<bar>\<lfloor>fl (of_int v * fl d)\<rfloor>\<bar> \<le> \<bar>v\<bar>" using bnd by linarith
    have "to_int16 \<lfloor>fl (of_int v * fl d)\<rfloor> = \<lfloor>fl (of_int v * fl d)\<rfloor>"
      using bnd that by (intro to_int16_id) linarith+
    with m show ?thesis by simp
  qed
  have one: "\<bar>rd (damp d i b2) i\<bar> \<le> \<bar>rd b2 i\<bar>"
    using shrink[of "rd b2 i"] rd_bounds[of b2 i] by (simp add: rd_damp[OF assms(3)])
  define v where "v = to_int16 ((rd b1 (i - 1) + rd b1 (i + 1) + rd b1 (i - w) + rd b1 (i + w)) div 2 - rd b2 i)"
  have range: "- 32768 \<le> v" "v \<le> 32767"
    using to_int16_range[of "(rd b1 (i - 1) + rd b1 (i + 1) + rd b1 (i - w) + rd b1 (i + w)) div 2 - rd b2 i"]
    by (simp_all add: v_def)
  have two: "\<bar>rd (ripple w d b1 i b2) i\<bar> \<le> \<bar>v\<bar>"
    using shrink[OF range] by (simp add: rd_ripple[OF assms(3)] v_def)
  from one two flat_frames[OF assms(4,5), of fs] show ?thesis by (simp add: v_def)
qed

text \<open>
  The theorem for damping 7/8 on a 3 by 3 grid.
\<close>

theorem damping_shrinks_and_rest_stays_witness:
  "(0 :: rat) < 7 / 8 \<and> (7 / 8 :: rat) < 1 \<and> 4 < length (replicate 9 (- 100 :: 16 word)) \<and>
   buffer1Ref (handleResize 3 3 unmounted) = flat (dim_w (handleResize 3 3 unmounted)) (dim_h (handleResize 3 3 unmounted)) \<and>
   buffer2Ref (handleResize 3 3 unmounted) = flat (dim_w (handleResize 3 3 unmounted)) (dim_h (handleResize 3 3 unmounted)) \<and>
   \<bar>rd (damp (7 / 8) 4 (replicate 9 (- 100))) 4\<bar> \<le> 100 \<and>
   \<bar>rd (ripple 3 (7 / 8) (replicate 9 600) 4 (replicate 9 (- 100))) 4\<bar> \<le> 1300 \<and>
   buffer1Ref (run (map (\<lambda>(config, texture). Animate config texture) [(theme (7 / 8), replicate 36 17), (theme (7 / 8), replicate 36 17)])
      (handleResize 3 3 unmounted)) = replicate 9 0"
proof -
  let ?s = "handleResize 3 3 unmounted"
  have a: "(0 :: rat) < 7 / 8" "(7 / 8 :: rat) < 1" "4 < length (replicate 9 (- 100 :: 16 word))" by simp_all
  have b: "buffer1Ref ?s = flat (dim_w ?s) (dim_h ?s)" "buffer2Ref ?s = flat (dim_w ?s) (dim_h ?s)"
    by (simp_all add: handleResize_def flat_def)
  have c: "to_int16 ((rd (replicate 9 600) (4 - 1) + rd (replicate 9 600) (4 + 1) + rd (replicate 9 600) (4 - 3)
             + rd (replicate 9 600) (4 + 3)) div 2 - (- 100)) = 1300"
    by code_simp
  have c': "rd (replicate 9 (- 100)) 4 = - 100"
    by code_simp
  have d: "flat (dim_w ?s) (dim_h ?s) = replicate 9 0" by (simp add: handleResize_def flat_def)
  from damping_shrinks_and_rest_stays[OF a b, of 3 "replicate 9 600"
      "[(theme (7 / 8), replicate 36 17), (theme (7 / 8), replicate 36 17)]"] a b
  show ?thesis unfolding c c' d by simp
qed

text \<open>
  The claim as stated fails, in two ways. On a 3 by 3 grid, after an injection into each of
  the two buffers, 500 frames with damping 1/2 and no further injection leave the interior
  cell at 400: the cells that the loop never reaches keep the injected 600 and drive the
  centre, and the grids reached after 22 frames are reproduced by every further frame. On a
  3 by 11 grid, one injection at the centre writes rows 2 to 8 and leaves every cell that
  the loop never reaches at zero; after 500 frames with damping 3/4 and no further
  injection those cells are still zero and the interior cell 7 holds \<open>-3\<close>. There the
  floor keeps the wave alive: \<open>-1\<close> times 3/4 is stored as \<open>-1\<close>, and from frame 79 on the
  grids run through a cycle of 18 frames.
\<close>

theorem decay_counterexample:
  "0 < damping (theme (1 / 2)) \<and> damping (theme (1 / 2)) < 1 \<and> interior 3 3 4 \<and>
   rd (buffer1Ref (run (Interaction centre # Animate (theme (1 / 2)) (replicate 36 17) # Interaction centre
          # replicate 500 (Animate (theme (1 / 2)) (replicate 36 17)))
        (handleResize 3 3 unmounted))) 4 = 400 \<and>
   0 < damping (theme (3 / 4)) \<and> damping (theme (3 / 4)) < 1 \<and> interior 3 11 7 \<and>
   buffer1Ref (run (Interaction centre # replicate 500 (Animate (theme (3 / 4)) (replicate 132 17)))
        (handleResize 3 11 unmounted))
     = [0, 0, 0, 0, - 1, - 2, - 1, - 3, - 2, - 3, - 2, - 3, - 2, - 3, - 3, - 3, - 3, - 3, - 3, - 3, - 2, - 3, - 2, - 3, - 2, - 3, - 1, - 2, - 1, 0, 0, 0, 0] \<and>
   buffer2Ref (run (Interaction centre # replicate 500 (Animate (theme (3 / 4)) (replicate 132 17)))
        (handleResize 3 11 unmounted))
     = [0, 0, 0, 0, - 1, 0, - 1, - 1, - 3, - 2, - 2, - 2, - 3, - 3, - 3, - 3, - 3, - 3, - 3, - 3, - 3, - 2, - 2, - 2, - 3, - 1, - 1, 0, - 1, 0, 0, 0, 0] \<and>
   rd (buffer1Ref (run (Interaction centre # replicate 500 (Animate (theme (3 / 4)) (replicate 132 17)))
        (handleResize 3 11 unmounted))) 7 = - 3 \<and>
   rd (damp (3 / 4) 0 [- 1]) 0 = - 1"
proof -
  let ?A = "Animate (theme (1 / 2)) (replicate 36 17)"
  let ?s0 = "handleResize 3 3 unmounted"
  let ?s3 = "interaction centre (renderloop (theme (1 / 2)) (replicate 36 17) (interaction centre ?s0))"
  let ?S = "([600, 600, 600, 600, 400, 600, 600, 600, 600] :: grid,
             [600, 600, 600, 600, 400, 600, 600, 600, 600] :: grid)"
  have half: "damping (theme (1 / 2)) = of_int 1 / 2 ^ 1" by (simp add: theme_def)
  have dims0: "dim_w ?s0 = 3" "dim_h ?s0 = 3" by (simp_all add: handleResize_def)
  have g0: "grids ?s0 = (replicate 9 0, replicate 9 0)"
    by (simp add: grids_def handleResize_def)
  have g1: "grids (interaction centre ?s0) = (replicate 9 600, replicate 9 0)"
    unfolding grids_interaction g0 dims0 fst_conv snd_conv by code_simp
  have g2: "grids (renderloop (theme (1 / 2)) (replicate 36 17) (interaction centre ?s0))
              = frames_dyadic 3 3 1 1 1 (replicate 9 600, replicate 9 0)"
    using grids_renderloop[of "interaction centre ?s0" "theme (1 / 2)" 1 1 "replicate 36 17"]
    by (simp add: half dims0 g1)
  have g2': "frames_dyadic 3 3 1 1 1 (replicate 9 600, replicate 9 0)
              = ([0, 0, 0, 0, 600, 0, 0, 0, 0], replicate 9 600)"
    by code_simp
  have g3: "grids ?s3 = (replicate 9 600, replicate 9 600)"
    unfolding grids_interaction g2 g2' renderloop_dims interaction_dims dims0 fst_conv snd_conv by code_simp
  have dims3: "dim_w ?s3 = 3" "dim_h ?s3 = 3" by (simp_all add: dims0)
  have run1: "run (Interaction centre # ?A # Interaction centre # replicate 500 ?A) ?s0
              = run (replicate 500 ?A) ?s3"
    by (simp only: run_Cons step.simps)
  have n1: "(500 :: nat) = 22 + 478 * 1" by simp
  have "frames_dyadic 3 3 1 1 (22 + 478 * 1) (replicate 9 600, replicate 9 600)
             = frames_dyadic 3 3 1 1 (478 * 1) (frames_dyadic 3 3 1 1 22 (replicate 9 600, replicate 9 600))"
    by (rule frames_dyadic_add)
  also have "frames_dyadic 3 3 1 1 22 (replicate 9 600, replicate 9 600) = ?S"
    by code_simp
  also have "frames_dyadic 3 3 1 1 (478 * 1) ?S = ?S"
  proof (rule frames_dyadic_cycle)
    show "frames_dyadic 3 3 1 1 1 ?S = ?S" by code_simp
  qed
  finally have fr1: "frames_dyadic 3 3 1 1 500 (replicate 9 600, replicate 9 600) = ?S"
    by (subst n1)
  have "grids (run (replicate 500 ?A) ?s3) = frames_dyadic 3 3 1 1 500 (replicate 9 600, replicate 9 600)"
    using grids_frames[of ?s3 "theme (1 / 2)" 1 1 500 "replicate 36 17"]
    by (simp only: dims3 g3 half) simp
  then have "grids (run (replicate 500 ?A) ?s3) = ?S"
    by (simp only: fr1)
  then have "buffer1Ref (run (replicate 500 ?A) ?s3) = [600, 600, 600, 600, 400, 600, 600, 600, 600]"
    by (simp only: grids_def prod.inject)
  then have first: "rd (buffer1Ref (run (Interaction centre # ?A # Interaction centre # replicate 500 ?A) ?s0)) 4 = 400"
    unfolding run1 by (simp add: rd_def)

  let ?B = "Animate (theme (3 / 4)) (replicate 132 17)"
  let ?t0 = "handleResize 3 11 unmounted"
  let ?t1 = "interaction centre ?t0"
  let ?G0 = "([0, 0, 0, 0, 0, 0, 600, 600, 600, 600, 600, 600, 600, 600, 600, 600, 600, 600, 600, 600, 600, 600, 600, 600, 600, 600, 600, 0, 0, 0, 0, 0, 0] :: grid, replicate 33 0 :: grid)"
  let ?S79 = "([0, 0, 0, 0, - 1, - 2, - 2, - 3, - 2, - 3, - 3, - 3, - 3, - 3, - 3, - 3, - 3, - 3, - 3, - 3, - 3, - 3, - 3, - 3, - 2, - 3, - 2, - 2, - 1, 0, 0, 0, 0] :: grid,
               [0, 0, 0, 0, - 1, - 1, - 1, - 3, - 3, - 3, - 2, - 3, - 3, - 3, - 3, - 3, - 3, - 3, - 3, - 3, - 3, - 3, - 2, - 3, - 3, - 3, - 1, - 1, - 1, 0, 0, 0, 0] :: grid)"
  let ?S86 = "([0, 0, 0, 0, - 1, - 2, - 1, - 3, - 2, - 3, - 2, - 3, - 2, - 3, - 3, - 3, - 3, - 3, - 3, - 3, - 2, - 3, - 2, - 3, - 2, - 3, - 1, - 2, - 1, 0, 0, 0, 0] :: grid,
               [0, 0, 0, 0, - 1, 0, - 1, - 1, - 3, - 2, - 2, - 2, - 3, - 3, - 3, - 3, - 3, - 3, - 3, - 3, - 3, - 2, - 2, - 2, - 3, - 1, - 1, 0, - 1, 0, 0, 0, 0] :: grid)"
  have quarter: "damping (theme (3 / 4)) = of_int 3 / 2 ^ 2" by (simp add: theme_def)
  have dimt0: "dim_w ?t0 = 3" "dim_h ?t0 = 11" by (simp_all add: handleResize_def)
  have dimt1: "dim_w ?t1 = 3" "dim_h ?t1 = 11" by (simp_all add: dimt0)
  have h0: "grids ?t0 = (replicate 33 0, replicate 33 0)"
    by (simp add: grids_def handleResize_def)
  have h1: "grids ?t1 = ?G0"
    unfolding grids_interaction h0 dimt0 fst_conv snd_conv by code_simp
  have run2: "run (Interaction centre # replicate 500 ?B) ?t0 = run (replicate 500 ?B) ?t1"
    by (simp only: run_Cons step.simps)
  have n2: "(500 :: nat) = 79 + (23 * 18 + 7)" by simp
  have "frames_dyadic 3 11 3 2 (79 + (23 * 18 + 7)) ?G0
             = frames_dyadic 3 11 3 2 7 (frames_dyadic 3 11 3 2 (23 * 18) (frames_dyadic 3 11 3 2 79 ?G0))"
    by (simp only: frames_dyadic_add)
  also have "frames_dyadic 3 11 3 2 79 ?G0 = ?S79"
    by code_simp
  also have "frames_dyadic 3 11 3 2 (23 * 18) ?S79 = ?S79"
  proof (rule frames_dyadic_cycle)
    show "frames_dyadic 3 11 3 2 18 ?S79 = ?S79" by code_simp
  qed
  also have "frames_dyadic 3 11 3 2 7 ?S79 = ?S86"
    by code_simp
  finally have fr2: "frames_dyadic 3 11 3 2 500 ?G0 = ?S86"
    by (subst n2)
  have "grids (run (replicate 500 ?B) ?t1) = frames_dyadic 3 11 3 2 500 ?G0"
    using grids_frames[of ?t1 "theme (3 / 4)" 3 2 500 "replicate 132 17"]
    by (simp only: dimt1 h1 quarter) simp
  then have end2: "grids (run (Interaction centre # replicate 500 ?B) ?t0) = ?S86"
    by (simp only: fr2 run2)
  then have b1: "buffer1Ref (run (Interaction centre # replicate 500 ?B) ?t0) = [0, 0, 0, 0, - 1, - 2, - 1, - 3, - 2, - 3, - 2, - 3, - 2, - 3, - 3, - 3, - 3, - 3, - 3, - 3, - 2, - 3, - 2, - 3, - 2, - 3, - 1, - 2, - 1, 0, 0, 0, 0]"
    and b2: "buffer2Ref (run (Interaction centre # replicate 500 ?B) ?t0) = [0, 0, 0, 0, - 1, 0, - 1, - 1, - 3, - 2, - 2, - 2, - 3, - 3, - 3, - 3, - 3, - 3, - 3, - 3, - 3, - 2, - 2, - 2, - 3, - 1, - 1, 0, - 1, 0, 0, 0, 0]"
    by (simp_all only: grids_def prod.inject)
  have cell: "rd ([0, 0, 0, 0, - 1, - 2, - 1, - 3, - 2, - 3, - 2, - 3, - 2, - 3, - 3, - 3, - 3, - 3, - 3, - 3, - 2, - 3, - 2, - 3, - 2, - 3, - 1, - 2, - 1, 0, 0, 0, 0] :: grid) 7 = - 3"
    by code_simp
  have floor_keeps: "rd (damp (3 / 4) 0 [- 1]) 0 = - 1"
    by code_simp
  have d1: "0 < damping (theme (1 / 2)) \<and> damping (theme (1 / 2)) < 1" by (simp add: theme_def)
  have d2: "0 < damping (theme (3 / 4)) \<and> damping (theme (3 / 4)) < 1" by (simp add: theme_def)
  have i1: "interior 3 3 4" by (simp add: interior_def)
  have i2: "interior 3 11 7" by (simp add: interior_def)
  from first d1 d2 i1 i2 b1 b2 cell floor_keeps show ?thesis
    by (simp only: simp_thms)
qed

subsection \<open>C9: colour parsing\<close>

text \<open>
  Claim C9. Colour parsing is total: \<open>#ff0000\<close> parses to (255, 0, 0), \<open>blue\<close> parses to
  (0, 0, 0), and so does every string that is not a colour of six hexadecimal digits.
\<close>

theorem hexToRgb_total:
  "hexToRgb ''#ff0000'' = \<lparr>r = 255, g = 0, b = 0\<rparr> \<and>
   hexToRgb ''blue'' = \<lparr>r = 0, g = 0, b = 0\<rparr> \<and>
   (\<forall>s. \<not> hex_color s \<longrightarrow> hexToRgb s = \<lparr>r = 0, g = 0, b = 0\<rparr>)"
proof (intro conjI allI impI)
  show "hexToRgb ''#ff0000'' = \<lparr>r = 255, g = 0, b = 0\<rparr>" by code_simp
  show "hexToRgb ''blue'' = \<lparr>r = 0, g = 0, b = 0\<rparr>" by code_simp
next
  fix s assume "\<not> hex_color s"
  then have "regex_exec s = None" using regex_exec_Some by (cases "regex_exec s") auto
  then show "hexToRgb s = \<lparr>r = 0, g = 0, b = 0\<rparr>" by (simp add: hexToRgb_def)
qed

text \<open>
  The theorem at a string with only five digits.
\<close>

theorem hexToRgb_total_witness:
  "\<not> hex_color ''#12345'' \<and> hexToRgb ''#12345'' = \<lparr>r = 0, g = 0, b = 0\<rparr>"
proof -
  have a: "\<not> hex_color ''#12345''" by code_simp
  with hexToRgb_total show ?thesis by blast
qed

subsection \<open>C10: amplitudes are 16-bit signed integers\<close>

text \<open>
  Claim C10. Every value stored into a grid is reduced modulo \<open>2 ^ 16\<close> into the range
  from \<open>-32768\<close> to \<open>32767\<close>. The first propagation assignment leaves in its cell the
  16-bit conversion of the halved neighbour sum minus the old value, the damping
  assignment the 16-bit conversion of the floored double product, and the whole loop, in a
  cell it reaches, the one applied after the other. Injection leaves the conversion of the
  strength 600 in the cells of the drop and the old value elsewhere. What an assignment
  stores differs from the number it computed by a multiple of 65536 and lies in the range,
  so a number outside the range wraps around instead of being kept.
\<close>

theorem stores_wrap_to_int16:
  assumes "i < length buffer2" "k < length buffer1"
  shows "rd (wave w buffer1 i buffer2) i =
           to_int16 ((rd buffer1 (i - 1) + rd buffer1 (i + 1) + rd buffer1 (i - w) + rd buffer1 (i + w)) div 2
                     - rd buffer2 i) \<and>
         rd (damp d i buffer2) i = to_int16 \<lfloor>fl (of_int (rd buffer2 i) * fl d)\<rfloor> \<and>
         (i \<in> set (loop_range w h) \<and> length buffer2 = w * h \<longrightarrow>
          rd (propagate w h d buffer1 buffer2) i =
            to_int16 \<lfloor>fl (of_int (to_int16
              ((rd buffer1 (i - 1) + rd buffer1 (i + 1) + rd buffer1 (i - w) + rd buffer1 (i + w)) div 2
                - rd buffer2 i)) * fl d)\<rfloor>) \<and>
         rd (inject w' h' p buffer1) k =
           (if active p \<and> 0 < w' \<and>
               in_drop w' h' \<lfloor>fl (fl (pt_x p) * of_nat w')\<rfloor> \<lfloor>fl (fl (pt_y p) * of_nat h')\<rfloor> k
            then to_int16 strength else rd buffer1 k) \<and>
         (rd (wave w buffer1 i buffer2) i
            - ((rd buffer1 (i - 1) + rd buffer1 (i + 1) + rd buffer1 (i - w) + rd buffer1 (i + w)) div 2
               - rd buffer2 i)) mod 65536 = 0 \<and>
         (rd (damp d i buffer2) i - \<lfloor>fl (of_int (rd buffer2 i) * fl d)\<rfloor>) mod 65536 = 0 \<and>
         - 32768 \<le> rd (wave w buffer1 i buffer2) i \<and> rd (wave w buffer1 i buffer2) i \<le> 32767 \<and>
         - 32768 \<le> rd (damp d i buffer2) i \<and> rd (damp d i buffer2) i \<le> 32767 \<and>
         - 32768 \<le> rd (inject w' h' p buffer1) k \<and> rd (inject w' h' p buffer1) k \<le> 32767"
proof -
  have a: "rd (wave w buffer1 i buffer2) i =
           to_int16 ((rd buffer1 (i - 1) + rd buffer1 (i + 1) + rd buffer1 (i - w) + rd buffer1 (i + w)) div 2
                     - rd buffer2 i)"
    using assms(1) by (rule rd_wave)
  have b: "rd (damp d i buffer2) i = to_int16 \<lfloor>fl (of_int (rd buffer2 i) * fl d)\<rfloor>"
    using assms(1) by (rule rd_damp)
  have c: "rd (propagate w h d buffer1 buffer2) i =
            to_int16 \<lfloor>fl (of_int (to_int16
              ((rd buffer1 (i - 1) + rd buffer1 (i + 1) + rd buffer1 (i - w) + rd buffer1 (i + w)) div 2
                - rd buffer2 i)) * fl d)\<rfloor>" if "i \<in> set (loop_range w h)" "length buffer2 = w * h"
  proof -
    from that assms(1) have "propagate w h d buffer1 buffer2 ! i = cell_next w d buffer1 i (buffer2 ! i)"
      by (simp add: propagate_nth)
    then show ?thesis by (simp add: rd_def rd_cell_next)
  qed
  have str: "to_int16 strength = 600" by (simp add: strength_def to_int16_def)
  have e: "rd (inject w' h' p buffer1) k =
           (if active p \<and> 0 < w' \<and>
               in_drop w' h' \<lfloor>fl (fl (pt_x p) * of_nat w')\<rfloor> \<lfloor>fl (fl (pt_y p) * of_nat h')\<rfloor> k
            then to_int16 strength else rd buffer1 k)"
    by (simp add: rd_def inject_nth[OF assms(2)] str)
  have f: "(rd (wave w buffer1 i buffer2) i
            - ((rd buffer1 (i - 1) + rd buffer1 (i + 1) + rd buffer1 (i - w) + rd buffer1 (i + w)) div 2
               - rd buffer2 i)) mod 65536 = 0"
    unfolding a by (rule to_int16_cong)
  have g: "(rd (damp d i buffer2) i - \<lfloor>fl (of_int (rd buffer2 i) * fl d)\<rfloor>) mod 65536 = 0"
    unfolding b by (rule to_int16_cong)
  from a b c e f g rd_bounds[of "wave w buffer1 i buffer2" i] rd_bounds[of "damp d i buffer2" i]
    rd_bounds[of "inject w' h' p buffer1" k]
  show ?thesis by blast
qed

text \<open>
  The theorem where neighbours of 32767 and an old value of 20000 make the first assignment
  compute 45534, stored as \<open>-20002\<close>, where a damping of 3 makes the damping assignment
  compute 60000, stored as \<open>-5536\<close>, and where the loop stores 5530 for \<open>-60006\<close>.
\<close>

theorem stores_wrap_to_int16_witness:
  "4 < length (replicate 9 (20000 :: 16 word)) \<and> 4 < length (replicate 9 (32767 :: 16 word)) \<and>
   4 \<in> set (loop_range 3 3) \<and> length (replicate 9 (20000 :: 16 word)) = 3 * 3 \<and>
   rd (wave 3 (replicate 9 32767) 4 (replicate 9 20000)) 4 = - 20002 \<and>
   rd (damp 3 4 (replicate 9 20000)) 4 = - 5536 \<and>
   rd (propagate 3 3 3 (replicate 9 32767) (replicate 9 20000)) 4 = 5530 \<and>
   rd (inject 3 3 centre (replicate 9 32767)) 4 = 600"
proof -
  have a: "4 < length (replicate 9 (20000 :: 16 word))" "4 < length (replicate 9 (32767 :: 16 word))" by simp_all
  have r: "4 \<in> set (loop_range 3 3) \<and> length (replicate 9 (20000 :: 16 word)) = 3 * 3"
    by (simp add: loop_range_def)
  have w: "to_int16 ((rd (replicate 9 32767) (4 - 1) + rd (replicate 9 32767) (4 + 1) + rd (replicate 9 32767) (4 - 3)
               + rd (replicate 9 32767) (4 + 3)) div 2 - rd (replicate 9 20000) 4) = - 20002"
    by code_simp
  have d: "to_int16 \<lfloor>fl (of_int (rd (replicate 9 20000) 4) * fl 3)\<rfloor> = - 5536"
    by code_simp
  have p: "to_int16 \<lfloor>fl (of_int (- 20002) * fl 3)\<rfloor> = 5530"
    by code_simp
  have i: "active centre \<and> 0 < (3 :: nat) \<and>
           in_drop 3 3 \<lfloor>fl (fl (pt_x centre) * of_nat 3)\<rfloor> \<lfloor>fl (fl (pt_y centre) * of_nat 3)\<rfloor> 4"
    by code_simp
  have s: "to_int16 strength = 600" by (simp add: strength_def to_int16_def)
  from stores_wrap_to_int16[OF a, of 3 3 3 3 3 centre] a r
  show ?thesis unfolding w d p by (simp only: i s if_True simp_thms)
qed

end
